theory Spec2Isabelle
  imports Main "HOL-Library.Sublist"
begin

section \<open>Common data\<close>

text \<open>
  Errors are values. \<^verbatim>\<open>PeerRequestTimeoutError\<close> is the class the synchronizer tests
  with \<^verbatim>\<open>instanceof\<close>; \<^verbatim>\<open>TypeError\<close> is what JavaScript throws on a property access
  on \<^verbatim>\<open>undefined\<close>; \<^verbatim>\<open>Error msg\<close> stands for every other thrown value.
\<close>

datatype error = PeerRequestTimeoutError | TypeError | Error string

text \<open>
  A block carries a header and a list of transactions.
  \<^verbatim>\<open>Block.fromBlockData({ header: h })\<close> is \<^verbatim>\<open>Block h []\<close>.
\<close>

datatype ('h, 'tx) Block = Block (block_header: 'h) (transactions: "'tx list")

text \<open>\<^verbatim>\<open>v || d\<close> on an optional number: \<^verbatim>\<open>undefined\<close> and 0 are falsy.\<close>

definition or_default :: "int option \<Rightarrow> int \<Rightarrow> int" where
  "or_default v d = (case v of None \<Rightarrow> d | Some x \<Rightarrow> if x = 0 then d else x)"

text \<open>
  A promise is settled with a value, settled with an error, or never settled.
\<close>

datatype 'a promise = Resolved 'a | Rejected error | Pending

section \<open>Peer banning (Libp2pNode.ban / Libp2pNode.isBanned)\<close>

text \<open>
  The node keeps \<^verbatim>\<open>banned\<close>, a map from peer id to the expiry time of the ban
  (milliseconds, the value of \<^verbatim>\<open>Date.now() + maxAge\<close>), and the flag
  \<^verbatim>\<open>started\<close>. The clock is a parameter of each call: \<^verbatim>\<open>now\<close> is the value
  \<^verbatim>\<open>Date.now()\<close> returns inside it. Times and ages are integers.
\<close>

record Libp2pNode =
  started :: bool
  banned :: "string \<rightharpoonup> int"

text \<open>
  \<^verbatim>\<open>ban(peerId, maxAge = 60000)\<close>: nothing happens on a node that is not started;
  otherwise the entry is overwritten with \<^verbatim>\<open>now + maxAge\<close>.
\<close>

definition ban :: "Libp2pNode \<Rightarrow> int \<Rightarrow> string \<Rightarrow> int \<Rightarrow> Libp2pNode \<times> bool" where
  "ban node now peerId maxAge =
     (if \<not> started node then (node, False)
      else (node\<lparr>banned := (banned node)(peerId \<mapsto> now + maxAge)\<rparr>, True))"

definition ban_default :: "Libp2pNode \<Rightarrow> int \<Rightarrow> string \<Rightarrow> Libp2pNode \<times> bool" where
  "ban_default node now peerId = ban node now peerId 60000"

text \<open>
  \<^verbatim>\<open>isBanned(peerId)\<close>: true when an expiry is stored, is truthy (a stored 0 is
  falsy in JavaScript) and lies strictly after \<^verbatim>\<open>now\<close>; in every other case the
  entry is deleted and the answer is false.
\<close>

definition isBanned :: "Libp2pNode \<Rightarrow> int \<Rightarrow> string \<Rightarrow> Libp2pNode \<times> bool" where
  "isBanned node now peerId =
     (case banned node peerId of
        Some expireTime \<Rightarrow>
          if expireTime \<noteq> 0 \<and> expireTime > now then (node, True)
          else (node\<lparr>banned := (banned node)(peerId := None)\<rparr>, False)
      | None \<Rightarrow> (node\<lparr>banned := (banned node)(peerId := None)\<rparr>, False))"

section \<open>FullSynchronizer: options and download\<close>

record FullSynchronizerOptions =
  opt_limit :: "int option"
  opt_count :: "int option"
  opt_timeoutBanTime :: "int option"
  opt_errorBanTime :: "int option"

record FullSynchronizer =
  sync_limit :: int
  sync_count :: int
  timeoutBanTime :: int
  errorBanTime :: int

text \<open>The constructor's defaults: 16 tasks at once, 128 blocks a task, bans in milliseconds.\<close>

definition constructor :: "FullSynchronizerOptions \<Rightarrow> FullSynchronizer" where
  "constructor options =
     \<lparr>sync_limit = or_default (opt_limit options) 16,
      sync_count = or_default (opt_count options) 128,
      timeoutBanTime = or_default (opt_timeoutBanTime options) 300000,
      errorBanTime = or_default (opt_errorBanTime options) 60000\<rparr>"

definition no_options :: FullSynchronizerOptions where
  "no_options = \<lparr>opt_limit = None, opt_count = None, opt_timeoutBanTime = None, opt_errorBanTime = None\<rparr>"

record Task =
  start :: int
  count :: int

text \<open>
  What \<^verbatim>\<open>download\<close> touches outside itself: the \<^verbatim>\<open>idle\<close> flag of each peer, the calls
  \<^verbatim>\<open>node.peerpool.ban(peer, time)\<close> it makes (in order), and the \<^verbatim>\<open>error\<close> events it emits.
\<close>

record 'p peers =
  idle :: "'p \<Rightarrow> bool"
  ban_calls :: "('p \<times> int) list"
  emitted :: "error list"

text \<open>
  \<^verbatim>\<open>download(task)\<close>. The parameter \<^verbatim>\<open>acquired\<close> is the outcome of the first
  \<^verbatim>\<open>try\<close> block up to the assignment of \<^verbatim>\<open>peer\<close> (taking the lock and awaiting
  \<^verbatim>\<open>idlePeerQueue.next()\<close>): a peer, or the error thrown, which is emitted and swallowed.
  \<^verbatim>\<open>getBlockHeaders\<close> is the peer's answer to the header request. When no peer was
  acquired, \<^verbatim>\<open>peer\<close> is \<^verbatim>\<open>undefined\<close>: the request throws a \<^verbatim>\<open>TypeError\<close>, and so does
  \<^verbatim>\<open>peer.idle = true\<close> in the handler, which leaves \<^verbatim>\<open>download\<close> before any ban.
\<close>

definition download ::
  "FullSynchronizer \<Rightarrow> ('p \<Rightarrow> int \<Rightarrow> int \<Rightarrow> error + 'h list) \<Rightarrow> 'p peers \<Rightarrow> (error + 'p) \<Rightarrow> Task
     \<Rightarrow> 'p peers \<times> (error + ('h, 'tx) Block list)" where
  "download this getBlockHeaders ps acquired task =
     (case acquired of
        Inl err \<Rightarrow> (ps\<lparr>emitted := emitted ps @ [err]\<rparr>, Inl TypeError)
      | Inr peer \<Rightarrow>
          let ps1 = ps\<lparr>idle := (idle ps)(peer := False)\<rparr> in
          (case getBlockHeaders peer (start task) (count task) of
             Inr headers \<Rightarrow>
               (ps1\<lparr>idle := (idle ps1)(peer := True)\<rparr>, Inr (map (\<lambda>h. Block h []) headers))
           | Inl err \<Rightarrow>
               let ps2 = ps1\<lparr>idle := (idle ps1)(peer := True)\<rparr> in
               if err = PeerRequestTimeoutError
               then (ps2\<lparr>ban_calls := ban_calls ps2 @ [(peer, timeoutBanTime this)]\<rparr>, Inl err)
               else (ps2\<lparr>ban_calls := ban_calls ps2 @ [(peer, errorBanTime this)]\<rparr>, Inl err)))"

subsection \<open>Retrying a task\<close>

text \<open>
  Modelled from the spec: the ordered task queue (\<^verbatim>\<open>OrderedQueue\<close>, package utils), which
  calls \<^verbatim>\<open>download\<close> as its \<^verbatim>\<open>processTask\<close>, is not among the sources. The specification
  says that a failure of \<^verbatim>\<open>processTask\<close> propagates as a queue-level \<^verbatim>\<open>error\<close> event
  without halting other tasks, and that a peer-level error bans the offending peer and
  the task is retried against another peer. \<^verbatim>\<open>process_task\<close> runs \<^verbatim>\<open>download\<close> for one
  task with the peers acquired one after the other, until a download returns its blocks;
  each error thrown is emitted (the synchronizer forwards the queue's \<^verbatim>\<open>error\<close> event).
  When no further peer is acquired the task stays unfinished.
\<close>

fun process_task ::
  "FullSynchronizer \<Rightarrow> ('p \<Rightarrow> int \<Rightarrow> int \<Rightarrow> error + 'h list) \<Rightarrow> 'p peers \<Rightarrow> 'p list \<Rightarrow> Task
     \<Rightarrow> 'p peers \<times> ('h, 'tx) Block list option" where
  "process_task this getBlockHeaders ps [] task = (ps, None)"
| "process_task this getBlockHeaders ps (peer # later) task =
     (case download this getBlockHeaders ps (Inr peer) task of
        (ps', Inr blocks) \<Rightarrow> (ps', Some blocks)
      | (ps', Inl err) \<Rightarrow>
          process_task this getBlockHeaders (ps'\<lparr>emitted := emitted ps' @ [err]\<rparr>) later task)"

section \<open>FullSynchronizer: sync\<close>

subsection \<open>The best peer and the tasks\<close>

text \<open>
  The loop over \<^verbatim>\<open>node.peerpool.peers\<close>; a peer is given with the height
  \<^verbatim>\<open>peer.latestHeight(GXC2_ETHWIRE)\<close> it advertises. The accumulator is
  \<^verbatim>\<open>(best, bestHeight)\<close>, which starts as \<^verbatim>\<open>(undefined, latestHeight)\<close>.
\<close>

fun find_best :: "('p \<times> int) list \<Rightarrow> 'p option \<times> int \<Rightarrow> 'p option \<times> int" where
  "find_best [] acc = acc"
| "find_best ((peer, height) # peers) (best, bestHeight) =
     (if height > bestHeight then find_best peers (Some peer, height)
      else find_best peers (best, bestHeight))"

text \<open>
  The \<^verbatim>\<open>while (totalCount > 0)\<close> loop, which inserts the tasks into the download queue.
  It returns the tasks inserted, in order, and \<^verbatim>\<open>taskCount\<close>. With a \<^verbatim>\<open>count\<close> that is not
  positive the loop never ends: the result is \<^verbatim>\<open>None\<close>.
\<close>

partial_function (option) insert_tasks ::
  "int \<Rightarrow> int \<Rightarrow> int \<Rightarrow> int \<Rightarrow> Task list \<Rightarrow> (Task list \<times> int) option" where
  "insert_tasks cnt latestHeight totalCount taskCount queue =
     (if totalCount > 0 then
        insert_tasks cnt latestHeight (totalCount - cnt) (taskCount + 1)
          (queue @ [\<lparr>start = taskCount * cnt + latestHeight + 1,
                     count = (if totalCount > cnt then cnt else totalCount)\<rparr>])
      else Some (queue, taskCount))"

declare insert_tasks.simps [code]

text \<open>
  \<^verbatim>\<open>sync()\<close>, lines 113 to 175. The calls into packages that are not among the sources
  are parameters: \<^verbatim>\<open>queue_reset\<close> is the error with which
  \<^verbatim>\<open>await this.downloadQueue.reset()\<close> throws, if it does (\<^verbatim>\<open>sync\<close> then throws it);
  \<^verbatim>\<open>queue_start tasks taskCount\<close> is the error with which
  \<^verbatim>\<open>await this.downloadQueue.start(taskCount)\<close> (or an insert before it) throws, if it
  does; \<^verbatim>\<open>consumer\<close> is the error with which the loop over the result channel throws
  (from \<^verbatim>\<open>processBlocks\<close>), if it does; \<^verbatim>\<open>finalHeight\<close> is \<^verbatim>\<open>node.blockchain.latestHeight\<close>
  as read in the \<^verbatim>\<open>return\<close>. The result is \<^verbatim>\<open>None\<close> when \<^verbatim>\<open>sync\<close> does not return,
  \<^verbatim>\<open>Some (Inl e)\<close> when it throws.
\<close>

definition sync ::
  "FullSynchronizer \<Rightarrow> bool \<Rightarrow> error option \<Rightarrow> int \<Rightarrow> ('p \<times> int) list
     \<Rightarrow> (Task list \<Rightarrow> int \<Rightarrow> error option) \<Rightarrow> error option \<Rightarrow> int \<Rightarrow> (error + bool) option" where
  "sync this isSyncing queue_reset latestHeight peers queue_start consumer finalHeight =
     (if isSyncing then Some (Inl (Error ''FullSynchronizer already sync''))
      else
        case queue_reset of
          Some err \<Rightarrow> Some (Inl err)
        | None \<Rightarrow>
            (case find_best peers (None, latestHeight) of
               (None, bestHeight) \<Rightarrow>
                 Some (Inr (False \<and> consumer = None \<and> bestHeight = finalHeight))
             | (Some best, bestHeight) \<Rightarrow>
                 (case insert_tasks (sync_count this) latestHeight (bestHeight - latestHeight) 0 [] of
                    None \<Rightarrow> None
                  | Some (tasks, taskCount) \<Rightarrow>
                      Some (Inr (queue_start tasks taskCount = None \<and> consumer = None
                                 \<and> bestHeight = finalHeight)))))"

subsection \<open>The ordered task queue and the result channel\<close>

text \<open>
  Modelled from the spec: \<^verbatim>\<open>OrderedQueue\<close> and \<^verbatim>\<open>AysncChannel\<close> (package utils) are not
  among the sources. The specification says of the queue: a task's output is tagged with
  its original input index; the queue buffers out-of-order completions and releases them
  to the consumer strictly in index order, by a \<^verbatim>\<open>result\<close> event; a stalled task blocks
  all higher-indexed results; when the total expected count has been emitted, the queue
  emits \<^verbatim>\<open>over\<close>. The model keeps the index of the next result to release, the
  completions that wait for a lower index, and the \<^verbatim>\<open>result\<close> events emitted so far.
\<close>

record 'r OrderedQueue =
  next_index :: nat
  waiting :: "(nat \<times> 'r) list"
  released :: "(nat \<times> 'r) list"

definition empty_queue :: "'r OrderedQueue" where
  "empty_queue = \<lparr>next_index = 0, waiting = [], released = []\<rparr>"

lemma waiting_shrinks:
  "map_of w i = Some r \<Longrightarrow> length (filter (\<lambda>e. fst e \<noteq> i) w) < length w"
proof (induction w)
  case Nil
  then show ?case by simp
next
  case (Cons e w)
  then show ?case
    by (cases e) (auto simp: less_Suc_eq_le split: if_splits)
qed

text \<open>Release every waiting result whose turn has come.\<close>

function release :: "'r OrderedQueue \<Rightarrow> 'r OrderedQueue" where
  "release q =
     (case map_of (waiting q) (next_index q) of
        None \<Rightarrow> q
      | Some r \<Rightarrow>
          release (q\<lparr>next_index := Suc (next_index q),
                     waiting := filter (\<lambda>e. fst e \<noteq> next_index q) (waiting q),
                     released := released q @ [(next_index q, r)]\<rparr>))"
  by pat_completeness auto
termination
  by (relation "measure (\<lambda>q. length (waiting q))") (auto simp: waiting_shrinks)

declare release.simps [simp del]

text \<open>Task \<^verbatim>\<open>i\<close> completes with result \<^verbatim>\<open>r\<close>.\<close>

definition complete :: "'r OrderedQueue \<Rightarrow> nat \<times> 'r \<Rightarrow> 'r OrderedQueue" where
  "complete q c = release (q\<lparr>waiting := waiting q @ [c]\<rparr>)"

text \<open>
  The queue as the synchronizer wires it: every \<^verbatim>\<open>result\<close> event pushes the result into
  the result channel, which hands its items to the consumer in the order of the pushes.
  \<^verbatim>\<open>consumer_receives\<close> is what the consumer reads for a sequence of completions.
\<close>

definition run_queue :: "(nat \<times> 'r) list \<Rightarrow> 'r OrderedQueue" where
  "run_queue completions = foldl complete empty_queue completions"

definition consumer_receives :: "(nat \<times> 'r) list \<Rightarrow> (nat \<times> 'r) list" where
  "consumer_receives completions = released (run_queue completions)"

subsection \<open>Applying the blocks\<close>


subsection \<open>A run of sync\<close>

text \<open>
  Modelled from the spec: the ordered task queue and the result channel (\<^verbatim>\<open>OrderedQueue\<close>
  and \<^verbatim>\<open>AysncChannel\<close>, package utils) are not among the sources. The run below puts
  \<^verbatim>\<open>sync\<close>, \<^verbatim>\<open>download\<close> and \<^verbatim>\<open>processBlocks\<close> together with what the specification
  says of the two:
  \<^item> the queue runs the tasks out of order, retries a task whose download failed against
    another peer, and releases the results in index order, each by a \<^verbatim>\<open>result\<close> event;
    when all expected results are emitted it emits \<^verbatim>\<open>over\<close>;
  \<^item> the \<^verbatim>\<open>result\<close> listener pushes the result into the result channel, and the
    \<^verbatim>\<open>over\<close> listener aborts the channel (lines 57 to 62 of the synchronizer);
  \<^item> a push hands the item to a reader that waits, and buffers it otherwise; the
    consumer reads one item at a time and applies its blocks before it reads again;
  \<^item> \<^verbatim>\<open>abort()\<close> makes all pending and future reads return end-of-sequence, so that
    results still buffered at the abort are never read.

  Tasks run concurrently and the consumer runs beside them; an execution is given by the
  list of its events. \<^verbatim>\<open>Download i acquired\<close>: the queue processes task \<^verbatim>\<open>i\<close> with the
  peers acquired one after the other (\<^verbatim>\<open>process_task\<close>), and on success the task
  completes. \<^verbatim>\<open>Next\<close>: the consumer is through with its current result and reads again.
\<close>

datatype consumer_state = Waiting | Busy | Finished "error option"


record ('p, 'c, 'b) running =
  r_peers :: "'p peers"
  r_queue :: "'b list OrderedQueue"
  r_buffered :: "'b list list"
  r_aborted :: bool
  r_consumer :: consumer_state
  r_chain :: 'c



text \<open>\<^verbatim>\<open>resultQueue.abort()\<close>, at the \<^verbatim>\<open>over\<close> event.\<close>

definition over :: "('p, 'c, 'b) running \<Rightarrow> ('p, 'c, 'b) running" where
  "over st =
     st\<lparr>r_aborted := True,
        r_consumer := (if r_consumer st = Waiting then Finished None else r_consumer st)\<rparr>"



subsection \<open>The partition of the specification\<close>

text \<open>
  The specification's partition of the heights above \<^verbatim>\<open>latestHeight\<close> up to
  \<^verbatim>\<open>bestHeight\<close> into tasks of \<^verbatim>\<open>cnt\<close> blocks: task \<^verbatim>\<open>k\<close> starts at
  \<^verbatim>\<open>k * cnt + latestHeight + 1\<close> and asks for \<^verbatim>\<open>cnt\<close> blocks, or for those that remain;
  there are as many tasks as \<^verbatim>\<open>bestHeight - latestHeight\<close> divided by \<^verbatim>\<open>cnt\<close>, rounded up.
  This definition follows the specification; \<^verbatim>\<open>insert_tasks\<close> above follows the code.
\<close>

definition task_number :: "int \<Rightarrow> int \<Rightarrow> int \<Rightarrow> nat" where
  "task_number cnt latestHeight bestHeight = nat ((bestHeight - latestHeight + cnt - 1) div cnt)"

definition scheduled_tasks :: "int \<Rightarrow> int \<Rightarrow> int \<Rightarrow> Task list" where
  "scheduled_tasks cnt latestHeight bestHeight =
     map (\<lambda>k. \<lparr>start = int k * cnt + latestHeight + 1,
                count = min cnt (bestHeight - latestHeight - int k * cnt)\<rparr>)
       [0 ..< task_number cnt latestHeight bestHeight]"

subsection \<open>Example data for sync\<close>

text \<open>
  The scenario of the specification: local height 10, one peer at height 20,
  \<^verbatim>\<open>count = 5\<close>, \<^verbatim>\<open>limit = 2\<close>. A header is its block number. A peer answers a request
  with the headers asked for, but for the peer \<^verbatim>\<open>slow\<close>, whose requests time out; the
  chain takes a block only on top of its latest block.
\<close>

record Blockchain =
  latestHeight :: int
  applied :: "int list"

definition example_synchronizer :: FullSynchronizer where
  "example_synchronizer =
     constructor \<lparr>opt_limit = Some 2, opt_count = Some 5, opt_timeoutBanTime = None,
                  opt_errorBanTime = None\<rparr>"





section \<open>The transaction journal (Jonunal)\<close>

text \<open>
  The journal file is a byte string. A record is a serialized transaction followed by
  the delimiter \<^verbatim>\<open>bufferSplit\<close>, the two bytes CR and LF. Serializing and parsing a
  transaction belong to an external library and are parameters.
\<close>

definition bufferSplit :: string where
  "bufferSplit = [CHR 0x0D, CHR 0x0A]"

text \<open>\<^verbatim>\<open>buffer.indexOf(value)\<close>: the first position at which \<^verbatim>\<open>value\<close> occurs, if any.\<close>

fun indexOf :: "string \<Rightarrow> string \<Rightarrow> nat option" where
  "indexOf [] v = (if v = [] then Some 0 else None)"
| "indexOf (x # xs) v = (if prefix v (x # xs) then Some 0 else map_option Suc (indexOf xs v))"

text \<open>
  \<^verbatim>\<open>insert(tx)\<close> appends one record to the file; \<^verbatim>\<open>write_error\<close> is the error the
  writer reports, if any, with which the returned promise is rejected.
\<close>

definition insert_tx :: "('tx \<Rightarrow> string) \<Rightarrow> error option \<Rightarrow> string \<Rightarrow> 'tx \<Rightarrow> error + string" where
  "insert_tx serialize write_error file tx =
     (case write_error of
        Some err \<Rightarrow> Inl err
      | None \<Rightarrow> Inr (file @ serialize tx @ bufferSplit))"

text \<open>The transactions inserted one after the other, every write succeeding.\<close>

fun insert_all :: "('tx \<Rightarrow> string) \<Rightarrow> string \<Rightarrow> 'tx list \<Rightarrow> error + string" where
  "insert_all serialize file [] = Inr file"
| "insert_all serialize file (tx # rest) =
     (case insert_tx serialize None file tx of
        Inl err \<Rightarrow> Inl err
      | Inr file' \<Rightarrow> insert_all serialize file' rest)"

text \<open>
  The state of \<^verbatim>\<open>load\<close>: the current \<^verbatim>\<open>batch\<close>, the unparsed bytes \<^verbatim>\<open>bufferInput\<close>
  (empty where the code has \<^verbatim>\<open>undefined\<close>) and the batches the callback \<^verbatim>\<open>add\<close> has been
  called with, in order. Each call is recorded with the contents the batch has at the
  call.
\<close>

record 'tx loading =
  batch :: "'tx list"
  bufferInput :: string
  added :: "'tx list list"

text \<open>
  Lines 61 to 65: the parsed transaction is pushed, and a batch that holds more than
  1024 transactions is handed to \<^verbatim>\<open>add\<close> and replaced by an empty one.
\<close>

definition push_batch :: "'tx loading \<Rightarrow> 'tx \<Rightarrow> 'tx loading" where
  "push_batch st tx =
     (let b = batch st @ [tx] in
      if length b > 1024 then st\<lparr>batch := [], added := added st @ [b]\<rparr>
      else st\<lparr>batch := b\<rparr>)"

lemma indexOf_bound: "indexOf s v = Some i \<Longrightarrow> i + length v \<le> length s"
proof (induction s arbitrary: i)
  case Nil
  then show ?case by (simp split: if_splits)
next
  case (Cons x xs)
  show ?case
  proof (cases "prefix v (x # xs)")
    case True
    with Cons.prems prefix_length_le [of v "x # xs"] show ?thesis by simp
  next
    case False
    with Cons.prems obtain j where "indexOf xs v = Some j" "i = Suc j" by auto
    with Cons.IH [of j] show ?thesis by simp
  qed
qed

text \<open>
  The \<^verbatim>\<open>while (true)\<close> loop of the \<^verbatim>\<open>data\<close> handler: as long as the delimiter occurs,
  the bytes before it are parsed and the buffer goes on behind it. A parse that throws
  leaves the loop and the handler with the state reached so far; the second component is
  the error thrown.
\<close>

function parse_records :: "(string \<Rightarrow> error + 'tx) \<Rightarrow> 'tx loading \<Rightarrow> 'tx loading \<times> error option" where
  "parse_records fromRlpSerializedTx st =
     (case indexOf (bufferInput st) bufferSplit of
        None \<Rightarrow> (st, None)
      | Some i \<Rightarrow>
          (case fromRlpSerializedTx (take i (bufferInput st)) of
             Inl err \<Rightarrow> (st, Some err)
           | Inr tx \<Rightarrow>
               parse_records fromRlpSerializedTx
                 ((push_batch st tx)\<lparr>bufferInput := drop (i + length bufferSplit) (bufferInput st)\<rparr>)))"
  by pat_completeness auto
termination
proof (relation "measure (\<lambda>(d, st). length (bufferInput st))")
  show "wf (measure (\<lambda>(d :: string \<Rightarrow> error + 'tx, st :: 'tx loading). length (bufferInput st)))"
    by simp
next
  fix fromRlpSerializedTx :: "string \<Rightarrow> error + 'tx" and st :: "'tx loading" and i tx
  assume "indexOf (bufferInput st) bufferSplit = Some i"
  then have "i + length bufferSplit \<le> length (bufferInput st)"
    by (rule indexOf_bound)
  then show "((fromRlpSerializedTx,
               (push_batch st tx)\<lparr>bufferInput := drop (i + length bufferSplit) (bufferInput st)\<rparr>),
              (fromRlpSerializedTx, st)) \<in> measure (\<lambda>(d, st). length (bufferInput st))"
    by (simp add: bufferSplit_def)
qed

declare parse_records.simps [simp del]

text \<open>
  The \<^verbatim>\<open>data\<close> handler for one chunk: append the chunk, parse the records, and call
  \<^verbatim>\<open>add\<close> with the batch when it is not empty. The batch is not replaced after this
  call. When a parse throws, the exception leaves the handler before that call.
\<close>

definition on_data ::
  "(string \<Rightarrow> error + 'tx) \<Rightarrow> 'tx loading \<Rightarrow> string \<Rightarrow> 'tx loading \<times> error option" where
  "on_data fromRlpSerializedTx st chunk =
     (case parse_records fromRlpSerializedTx (st\<lparr>bufferInput := bufferInput st @ chunk\<rparr>) of
        (st', Some err) \<Rightarrow> (st', Some err)
      | (st', None) \<Rightarrow>
          (if length (batch st') > 0 then st'\<lparr>added := added st' @ [batch st']\<rparr> else st', None))"

text \<open>The chunks in turn, up to the first handler that an exception leaves.\<close>

fun read_chunks ::
  "(string \<Rightarrow> error + 'tx) \<Rightarrow> 'tx loading \<Rightarrow> string list \<Rightarrow> 'tx loading \<times> error option" where
  "read_chunks fromRlpSerializedTx st [] = (st, None)"
| "read_chunks fromRlpSerializedTx st (chunk # chunks) =
     (case on_data fromRlpSerializedTx st chunk of
        (st', Some err) \<Rightarrow> (st', Some err)
      | (st', None) \<Rightarrow> read_chunks fromRlpSerializedTx st' chunks)"

text \<open>
  \<^verbatim>\<open>load(add)\<close>. The file is absent, or the read stream delivers a list of chunks and
  then ends, or fails with an \<^verbatim>\<open>error\<close> event. The result is the list of batches
  \<^verbatim>\<open>add\<close> has been called with, and what becomes of the promise: the \<^verbatim>\<open>end\<close> event
  resolves it, the \<^verbatim>\<open>error\<close> event rejects it, and an exception that leaves the
  \<^verbatim>\<open>data\<close> listener (a parse that throws) is caught by nothing in \<^verbatim>\<open>load\<close>, so the
  promise is never settled; the model reads no further chunk then. Whatever is left in
  \<^verbatim>\<open>bufferInput\<close> at the end is dropped.
\<close>

definition load ::
  "(string \<Rightarrow> error + 'tx) \<Rightarrow> (string list \<times> error option) option \<Rightarrow> 'tx list list \<times> unit promise" where
  "load fromRlpSerializedTx file =
     (case file of
        None \<Rightarrow> ([], Resolved ())
      | Some (chunks, stream_error) \<Rightarrow>
          (case read_chunks fromRlpSerializedTx \<lparr>batch = [], bufferInput = [], added = []\<rparr> chunks of
             (st, Some thrown) \<Rightarrow> (added st, Pending)
           | (st, None) \<Rightarrow>
               (case stream_error of
                  Some err \<Rightarrow> (added st, Rejected err)
                | None \<Rightarrow> (added st, Resolved ()))))"

subsection \<open>Example data for the journal\<close>

text \<open>
  A transaction is a string; it is serialized between brackets, and parsing throws on
  bytes that are not bracketed.
\<close>

definition example_serialize :: "string \<Rightarrow> string" where
  "example_serialize tx = ''['' @ tx @ '']''"

definition example_parse :: "string \<Rightarrow> error + string" where
  "example_parse s =
     (if 2 \<le> length s \<and> hd s = CHR ''['' \<and> last s = CHR '']''
      then Inr (butlast (tl s)) else Inl (Error ''invalid remainder''))"

section \<open>Worker: candidate block, pending block and the commit loop\<close>

text \<open>
  A transaction, as far as the worker looks at it: its sender, its nonce, its gas price
  and its payload. Buffers (hashes, trie roots, addresses) are strings.
\<close>

record Tx =
  sender :: string
  nonce :: int
  gasPrice :: int
  payload :: int

text \<open>
  The header fields the worker sets or reads. The constant fields of \<^verbatim>\<open>makeHeader\<close>
  (zero coinbase, zero nonce, the empty uncle hash) and the clique signature are left out.
\<close>

record BlockHeader =
  difficulty :: int
  gasLimit :: int
  number :: int
  parentHash :: string
  timestamp :: int
  transactionsTrie :: string

text \<open>
  What the worker takes from other packages: the miner's \<^verbatim>\<open>isMining\<close> and \<^verbatim>\<open>gasLimit\<close>,
  the difficulty \<^verbatim>\<open>calcCliqueDifficulty\<close> gives for a block number, the constant
  \<^verbatim>\<open>CLIQUE_DIFF_NOTURN\<close>, \<^verbatim>\<open>calculateTransactionTrie\<close>, and the trie root a header gets
  when none is given.
\<close>

record Miner =
  isMining :: bool
  miner_gasLimit :: int
  calcCliqueDifficulty :: "int \<Rightarrow> int"
  CLIQUE_DIFF_NOTURN :: int
  calculateTransactionTrie :: "Tx list \<Rightarrow> string"
  default_transactionsTrie :: string

text \<open>\<^verbatim>\<open>makeHeader(parentHash, number)\<close>; \<^verbatim>\<open>now\<close> is \<^verbatim>\<open>Date.now()\<close> in milliseconds.\<close>

definition makeHeader :: "Miner \<Rightarrow> int \<Rightarrow> string \<Rightarrow> int \<Rightarrow> BlockHeader" where
  "makeHeader miner now parent n =
     (if isMining miner then
        \<lparr>difficulty = calcCliqueDifficulty miner n, gasLimit = miner_gasLimit miner, number = n,
         parentHash = parent, timestamp = now div 1000,
         transactionsTrie = default_transactionsTrie miner\<rparr>
      else
        \<lparr>difficulty = CLIQUE_DIFF_NOTURN miner, gasLimit = miner_gasLimit miner, number = n,
         parentHash = parent, timestamp = now div 1000,
         transactionsTrie = calculateTransactionTrie miner []\<rparr>)"

subsection \<open>The state manager\<close>

text \<open>
  Modelled from the spec: the state manager (package state-manager, over the trie of an
  external library) is not among the sources. The specification's glossary gives its
  contract: a checkpoint is a savepoint over mutable state allowing later commit (make
  permanent) or revert (discard) of all changes since the savepoint. The model is the
  current state with the stack of savepoints; \<^verbatim>\<open>commit\<close> and \<^verbatim>\<open>revert\<close> throw when
  there is no savepoint.
\<close>

record 's StateManager =
  current :: 's
  checkpoints :: "'s list"

definition sm_checkpoint :: "'s StateManager \<Rightarrow> 's StateManager" where
  "sm_checkpoint sm = sm\<lparr>checkpoints := current sm # checkpoints sm\<rparr>"

definition sm_commit :: "'s StateManager \<Rightarrow> error + 's StateManager" where
  "sm_commit sm =
     (case checkpoints sm of
        [] \<Rightarrow> Inl (Error ''trying to commit when not checkpointed'')
      | c # cs \<Rightarrow> Inr (sm\<lparr>checkpoints := cs\<rparr>))"

definition sm_revert :: "'s StateManager \<Rightarrow> error + 's StateManager" where
  "sm_revert sm =
     (case checkpoints sm of
        [] \<Rightarrow> Inl (Error ''trying to revert when not checkpointed'')
      | c # cs \<Rightarrow> Inr (sm\<lparr>current := c, checkpoints := cs\<rparr>))"

subsection \<open>The pending transaction map\<close>

text \<open>
  Modelled from the spec: \<^verbatim>\<open>PendingTxMap\<close> (package tx-pool) is not among the sources.
  The specification describes a priority structure over transactions grouped by sender;
  within a sender the transactions are in ascending nonce order; across senders the next
  candidate is chosen by a total order over the effective priority (the gas price).
  \<^verbatim>\<open>peek()\<close> returns the lowest-nonce unconsumed transaction of the sender that has the
  highest priority; \<^verbatim>\<open>pop()\<close> drops the sender's head, which advances past the whole
  sender (its remaining transactions are no candidates in this round); \<^verbatim>\<open>shift()\<close>
  advances the sender to its next transaction.

  The model has one entry for each sender: the head transaction and the later ones.
  \<^verbatim>\<open>pick\<close> splits the entries into the entry whose head has the highest gas price
  (the earliest such entry) and the other entries.
\<close>

type_synonym PendingTxMap = "(Tx \<times> Tx list) list"

fun pick :: "PendingTxMap \<Rightarrow> ((Tx \<times> Tx list) \<times> PendingTxMap) option" where
  "pick [] = None"
| "pick (e # es) =
     (case pick es of
        None \<Rightarrow> Some (e, [])
      | Some (b, others) \<Rightarrow>
          if gasPrice (fst e) < gasPrice (fst b) then Some (b, e # others) else Some (e, es))"

definition push :: "PendingTxMap \<Rightarrow> Tx list \<Rightarrow> PendingTxMap" where
  "push pm sortedTxs = (case sortedTxs of [] \<Rightarrow> pm | t # ts \<Rightarrow> pm @ [(t, ts)])"

definition peek :: "PendingTxMap \<Rightarrow> Tx option" where
  "peek pm = (case pick pm of None \<Rightarrow> None | Some ((tx, later), others) \<Rightarrow> Some tx)"

definition pop :: "PendingTxMap \<Rightarrow> PendingTxMap" where
  "pop pm = (case pick pm of None \<Rightarrow> pm | Some ((tx, later), others) \<Rightarrow> others)"

definition shift :: "PendingTxMap \<Rightarrow> PendingTxMap" where
  "shift pm =
     (case pick pm of
        None \<Rightarrow> pm
      | Some ((tx, []), others) \<Rightarrow> others
      | Some ((tx, t # ts), others) \<Rightarrow> (t, ts) # others)"

text \<open>The number of transactions a map still holds.\<close>

definition pending_size :: "PendingTxMap \<Rightarrow> nat" where
  "pending_size pm = sum_list (map (\<lambda>e. Suc (length (snd e))) pm)"

subsection \<open>The worker\<close>

record 's Worker =
  wvm :: "'s StateManager"
  txs :: "Tx list"
  header :: BlockHeader
  gasUsed :: int

text \<open>
  \<^verbatim>\<open>getPendingBlock(number?, hash?)\<close>. A \<^verbatim>\<open>BN\<close> and a \<^verbatim>\<open>Buffer\<close> are objects, so
  \<^verbatim>\<open>number && hash\<close> holds exactly when both arguments are given.
\<close>

definition getPendingBlock ::
  "Miner \<Rightarrow> int \<Rightarrow> 's Worker \<Rightarrow> int option \<Rightarrow> string option \<Rightarrow> (BlockHeader, Tx) Block" where
  "getPendingBlock miner now this num hash =
     (case (num, hash) of
        (Some n, Some h) \<Rightarrow>
          if n + 1 \<noteq> number (header this) \<or> h \<noteq> parentHash (header this)
          then Block (makeHeader miner now h (n + 1)) []
          else Block ((header this)\<lparr>timestamp := now div 1000,
                        transactionsTrie := calculateTransactionTrie miner (txs this)\<rparr>) (txs this)
      | _ \<Rightarrow>
          Block ((header this)\<lparr>timestamp := now div 1000,
                   transactionsTrie := calculateTransactionTrie miner (txs this)\<rparr>) (txs this))"

text \<open>
  One round of the \<^verbatim>\<open>while\<close> loop of \<^verbatim>\<open>commit\<close>, for the peeked transaction \<^verbatim>\<open>tx\<close>.
  \<^verbatim>\<open>runTx\<close> takes the current state and the transaction; it returns the gas used with
  the new state, or throws, leaving behind whatever state it had reached. A throw of
  \<^verbatim>\<open>revert\<close> or \<^verbatim>\<open>commit\<close> lands in the outer handler, which pops.
\<close>

definition commit_round ::
  "('s \<Rightarrow> Tx \<Rightarrow> (error \<times> 's) + (int \<times> 's)) \<Rightarrow> 's Worker \<Rightarrow> PendingTxMap \<Rightarrow> Tx
     \<Rightarrow> 's Worker \<times> PendingTxMap" where
  "commit_round runTx this pendingMap tx =
     (let sm1 = sm_checkpoint (wvm this) in
      case runTx (current sm1) tx of
        Inl (err, dirty) \<Rightarrow>
          (case sm_revert (sm1\<lparr>current := dirty\<rparr>) of
             Inr sm2 \<Rightarrow> (this\<lparr>wvm := sm2\<rparr>, pop pendingMap)
           | Inl e \<Rightarrow> (this\<lparr>wvm := sm1\<lparr>current := dirty\<rparr>\<rparr>, pop pendingMap))
      | Inr (txGasUsed, s') \<Rightarrow>
          let sm2 = sm1\<lparr>current := s'\<rparr> in
          if gasLimit (header this) < txGasUsed + gasUsed this then
            (case sm_revert sm2 of
               Inr sm3 \<Rightarrow> (this\<lparr>wvm := sm3\<rparr>, pop pendingMap)
             | Inl e \<Rightarrow> (this\<lparr>wvm := sm2\<rparr>, pop pendingMap))
          else
            (case sm_commit sm2 of
               Inr sm3 \<Rightarrow>
                 (this\<lparr>wvm := sm3, txs := txs this @ [tx], gasUsed := gasUsed this + txGasUsed\<rparr>,
                  shift pendingMap)
             | Inl e \<Rightarrow> (this\<lparr>wvm := sm2\<rparr>, pop pendingMap)))"

lemma pick_size:
  "pick pm = Some ((tx, later), others) \<Longrightarrow> pending_size pm = Suc (length later) + pending_size others"
proof (induction pm arbitrary: tx later others)
  case Nil
  then show ?case by simp
next
  case (Cons e es)
  show ?case
  proof (cases "pick es")
    case None
    then have "es = []" by (cases es) (auto split: option.splits if_splits)
    with Cons.prems None show ?thesis by (auto simp: pending_size_def)
  next
    case (Some r)
    obtain b l os where r: "r = ((b, l), os)" by (metis surj_pair)
    from Cons.IH [of b l os] Some r have "pending_size es = Suc (length l) + pending_size os"
      by simp
    with Cons.prems Some r show ?thesis
      by (auto simp: pending_size_def split: if_splits)
  qed
qed

lemma pop_smaller: "peek pm = Some tx \<Longrightarrow> pending_size (pop pm) < pending_size pm"
  by (auto simp: peek_def pop_def split: option.splits dest: pick_size)

lemma shift_smaller: "peek pm = Some tx \<Longrightarrow> pending_size (shift pm) < pending_size pm"
  by (auto simp: peek_def shift_def pending_size_def split: option.splits list.splits dest!: pick_size)

lemma commit_round_pending:
  "snd (commit_round runTx this pm tx) = pop pm \<or> snd (commit_round runTx this pm tx) = shift pm"
  by (auto simp: commit_round_def Let_def split: sum.splits prod.splits)

text \<open>\<^verbatim>\<open>commit(pendingMap)\<close>: rounds until \<^verbatim>\<open>peek\<close> finds nothing.\<close>

function commit ::
  "('s \<Rightarrow> Tx \<Rightarrow> (error \<times> 's) + (int \<times> 's)) \<Rightarrow> 's Worker \<Rightarrow> PendingTxMap \<Rightarrow> 's Worker \<times> PendingTxMap" where
  "commit runTx this pendingMap =
     (case peek pendingMap of
        None \<Rightarrow> (this, pendingMap)
      | Some tx \<Rightarrow>
          commit runTx (fst (commit_round runTx this pendingMap tx))
            (snd (commit_round runTx this pendingMap tx)))"
  by pat_completeness auto
termination
proof (relation "measure (\<lambda>(runTx, this, pm). pending_size pm)")
  show "wf (measure (\<lambda>(runTx :: 's \<Rightarrow> Tx \<Rightarrow> (error \<times> 's) + (int \<times> 's), this :: 's Worker, pm). pending_size pm))"
    by simp
next
  fix runTx :: "'s \<Rightarrow> Tx \<Rightarrow> (error \<times> 's) + (int \<times> 's)" and this :: "'s Worker" and pendingMap tx
  assume "peek pendingMap = Some tx"
  then show "((runTx, fst (commit_round runTx this pendingMap tx), snd (commit_round runTx this pendingMap tx)),
              (runTx, this, pendingMap)) \<in> measure (\<lambda>(runTx, this, pm). pending_size pm)"
    using commit_round_pending [of runTx this pendingMap tx] pop_smaller shift_smaller
    by (auto simp: case_prod_beta)
qed

declare commit.simps [simp del]

text \<open>\<^verbatim>\<open>addTxs(txs)\<close>: a fresh map with one \<^verbatim>\<open>push\<close> for each sender, then \<^verbatim>\<open>commit\<close>.\<close>

definition addTxs ::
  "('s \<Rightarrow> Tx \<Rightarrow> (error \<times> 's) + (int \<times> 's)) \<Rightarrow> 's Worker \<Rightarrow> Tx list list \<Rightarrow> 's Worker" where
  "addTxs runTx this readies = fst (commit runTx this (foldl push [] readies))"

subsection \<open>Example data for the worker\<close>

text \<open>
  A candidate on parent \<^verbatim>\<open>p7\<close> (number 8) with gas limit 5 over an integer state; a
  \<^verbatim>\<open>runTx\<close> that uses as much gas as the payload says and adds it to the state, and that
  throws on a negative payload after it has already changed the state.
\<close>

definition example_big :: Tx where
  "example_big = \<lparr>sender = ''A'', nonce = 5, gasPrice = 9, payload = 10\<rparr>"

definition example_small :: Tx where
  "example_small = \<lparr>sender = ''A'', nonce = 6, gasPrice = 9, payload = 1\<rparr>"

definition example_bad :: Tx where
  "example_bad = \<lparr>sender = ''A'', nonce = 5, gasPrice = 9, payload = - 1\<rparr>"

definition example_other :: Tx where
  "example_other = \<lparr>sender = ''B'', nonce = 5, gasPrice = 3, payload = 2\<rparr>"

definition example_runTx :: "int \<Rightarrow> Tx \<Rightarrow> (error \<times> int) + (int \<times> int)" where
  "example_runTx s t =
     (if payload t < 0 then Inl (Error ''invalid'', s - 1) else Inr (payload t, s + payload t))"

definition example_worker :: "int Worker" where
  "example_worker =
     \<lparr>wvm = \<lparr>current = 0, checkpoints = []\<rparr>, txs = [],
      header = \<lparr>difficulty = 1, gasLimit = 5, number = 8, parentHash = ''p7'', timestamp = 0,
                transactionsTrie = []\<rparr>,
      gasUsed = 0\<rparr>"

definition example_miner :: Miner where
  "example_miner =
     \<lparr>isMining = False, miner_gasLimit = 5, calcCliqueDifficulty = (\<lambda>n. 2),
      CLIQUE_DIFF_NOTURN = 1, calculateTransactionTrie = (\<lambda>ts. concat (map sender ts)),
      default_transactionsTrie = []\<rparr>"

section \<open>Node: addPendingTxs\<close>

text \<open>
  The caller passes plain or wrapped transactions; the loop wraps the plain ones. A
  wrapped transaction is identified with the transaction it wraps.
\<close>

datatype 'tx submitted = Plain 'tx | Wrapped 'tx

fun wrap :: "'tx submitted \<Rightarrow> 'tx" where
  "wrap (Plain tx) = tx"
| "wrap (Wrapped wtx) = wtx"

text \<open>
  What the loop calls in packages that are not among the sources, as parameters:
  \<^verbatim>\<open>initPromise\<close> is the error the node's initialisation was rejected with, if it was;
  \<^verbatim>\<open>txPool_addTxs\<close> returns the per-transaction results with the ready transactions of
  each sender (absent, or a map from sender to transactions), or throws;
  \<^verbatim>\<open>announceTx peer hashes\<close> and \<^verbatim>\<open>worker_addTxs readies\<close> give the error they throw, if any.
\<close>

record ('tx, 'p) Node =
  initPromise :: "error option"
  txPool_addTxs :: "'tx list \<Rightarrow> error + (bool list \<times> (string \<times> 'tx list) list option)"
  peerpool_peers :: "'p list"
  announceTx :: "'p \<Rightarrow> string list \<Rightarrow> error option"
  worker_addTxs :: "(string \<times> 'tx list) list \<Rightarrow> error option"
  tx_hash :: "'tx \<Rightarrow> string"

text \<open>The loop over the peers: it stops at the first \<^verbatim>\<open>announceTx\<close> that throws.\<close>

fun announce_all :: "('p \<Rightarrow> string list \<Rightarrow> error option) \<Rightarrow> 'p list \<Rightarrow> string list \<Rightarrow> error option" where
  "announce_all announce [] hashes = None"
| "announce_all announce (peer # peers) hashes =
     (case announce peer hashes of
        Some err \<Rightarrow> Some err
      | None \<Rightarrow> announce_all announce peers hashes)"

text \<open>
  One round of \<^verbatim>\<open>addPendingTxsLoop\<close>, for the request \<^verbatim>\<open>{ txs, resolve }\<close> taken from the
  queue: the value \<^verbatim>\<open>resolve\<close> is called with. Every throw inside the \<^verbatim>\<open>try\<close> block ends
  in the handler, which resolves with \<^verbatim>\<open>new Array(txs.length).fill(false)\<close>.
\<close>

definition addPendingTxsLoop_round :: "('tx, 'p) Node \<Rightarrow> 'tx submitted list \<Rightarrow> bool list" where
  "addPendingTxsLoop_round node pending =
     (case txPool_addTxs node (map wrap pending) of
        Inl err \<Rightarrow> replicate (length pending) False
      | Inr (results, readies) \<Rightarrow>
          (case readies of
             None \<Rightarrow> results
           | Some ready \<Rightarrow>
               if length ready > 0 then
                 (case announce_all (announceTx node) (peerpool_peers node)
                         (map (tx_hash node) (concat (map snd ready))) of
                    Some err \<Rightarrow> replicate (length pending) False
                  | None \<Rightarrow>
                      (case worker_addTxs node ready of
                         Some err \<Rightarrow> replicate (length pending) False
                       | None \<Rightarrow> results))
               else results))"

text \<open>
  \<^verbatim>\<open>addPendingTxs(txs)\<close>: it awaits \<^verbatim>\<open>initPromise\<close>, which rejects the returned promise
  when the initialisation failed, and then pushes the request with the \<^verbatim>\<open>resolve\<close> of a
  new promise. \<^verbatim>\<open>taken\<close> says whether the loop takes the request from the queue (it does
  not once the node is aborted); the promise has no \<^verbatim>\<open>reject\<close>.
\<close>

definition addPendingTxs :: "('tx, 'p) Node \<Rightarrow> bool \<Rightarrow> 'tx submitted list \<Rightarrow> bool list promise" where
  "addPendingTxs node taken pending =
     (case initPromise node of
        Some err \<Rightarrow> Rejected err
      | None \<Rightarrow> if taken then Resolved (addPendingTxsLoop_round node pending) else Pending)"

definition example_node :: "(string, nat) Node" where
  "example_node =
     \<lparr>initPromise = None,
      txPool_addTxs = (\<lambda>pending. if ''bad'' \<in> set pending then Inl (Error ''pool'')
                              else Inr (map (\<lambda>tx. tx \<noteq> ''old'') pending, Some [(''A'', filter (\<lambda>tx. tx \<noteq> ''old'') pending)])),
      peerpool_peers = [1, 2],
      announceTx = (\<lambda>peer hashes. None),
      worker_addTxs = (\<lambda>ready. None),
      tx_hash = (\<lambda>tx. tx)\<rparr>"

section \<open>Properties of peer banning\<close>

lemma isBanned_true_iff:
  "snd (isBanned node t p) \<longleftrightarrow> (\<exists>e. banned node p = Some e \<and> e \<noteq> 0 \<and> t < e)"
  by (auto simp: isBanned_def split: option.splits)

lemma isBanned_clears:
  "\<not> snd (isBanned node t p) \<Longrightarrow> banned (fst (isBanned node t p)) p = None"
  by (auto simp: isBanned_def split: option.splits if_splits)

lemma isBanned_cleared_stays:
  "banned node p = None \<Longrightarrow> \<not> snd (isBanned node t p)"
  by (simp add: isBanned_true_iff)

text \<open>
  C8, as the code has it. On a started node, \<^verbatim>\<open>ban\<close> overwrites the expiry of the peer with
  \<^verbatim>\<open>now + maxAge\<close>, whatever was stored before. From then on \<^verbatim>\<open>isBanned\<close> answers true
  at every time before the new expiry; it therefore answers true up to the previous
  expiry whenever the new expiry is not earlier than the previous one. Once the new
  expiry has elapsed, the first query answers false and deletes the entry, and every
  later query answers false too.
\<close>

theorem ban_resets_expiry:
  assumes "started node"
  shows "snd (ban node now p maxAge)
     \<and> banned (fst (ban node now p maxAge)) p = Some (now + maxAge)
     \<and> (0 \<le> t \<and> t < now + maxAge \<longrightarrow> snd (isBanned (fst (ban node now p maxAge)) t p))
     \<and> (banned node p = Some e \<and> e \<le> now + maxAge \<and> 0 \<le> t \<and> t < e
          \<longrightarrow> snd (isBanned (fst (ban node now p maxAge)) t p))
     \<and> (now + maxAge \<le> t \<longrightarrow>
          \<not> snd (isBanned (fst (ban node now p maxAge)) t p)
          \<and> banned (fst (isBanned (fst (ban node now p maxAge)) t p)) p = None
          \<and> \<not> snd (isBanned (fst (isBanned (fst (ban node now p maxAge)) t p)) t' p))"
proof -
  let ?n = "fst (ban node now p maxAge)"
  have stored: "banned ?n p = Some (now + maxAge)"
    using assms by (simp add: ban_def)
  have ok: "snd (ban node now p maxAge)"
    using assms by (simp add: ban_def)
  have before: "snd (isBanned ?n t p)" if "0 \<le> t" "t < now + maxAge"
    using that stored by (auto simp: isBanned_true_iff)
  have after: "\<not> snd (isBanned ?n t p)" if "now + maxAge \<le> t"
    using that stored by (auto simp: isBanned_true_iff)
  have cleared: "banned (fst (isBanned ?n t p)) p = None" if "now + maxAge \<le> t"
    using after [OF that] by (rule isBanned_clears)
  have later: "\<not> snd (isBanned (fst (isBanned ?n t p)) t' p)" if "now + maxAge \<le> t"
    using cleared [OF that] by (rule isBanned_cleared_stays)
  show ?thesis
    using stored ok before after cleared later by auto
qed

theorem ban_resets_expiry_witness:
  "snd (ban \<lparr>started = True, banned = [''peer'' \<mapsto> 61000]\<rparr> 2000 ''peer'' 60000)
   \<and> banned (fst (ban \<lparr>started = True, banned = [''peer'' \<mapsto> 61000]\<rparr> 2000 ''peer'' 60000)) ''peer''
       = Some 62000
   \<and> snd (isBanned (fst (ban \<lparr>started = True, banned = [''peer'' \<mapsto> 61000]\<rparr> 2000 ''peer'' 60000))
         50000 ''peer'')
   \<and> \<not> snd (isBanned (fst (ban \<lparr>started = True, banned = [''peer'' \<mapsto> 61000]\<rparr> 2000 ''peer'' 60000))
         62000 ''peer'')
   \<and> \<not> snd (isBanned (fst (isBanned
         (fst (ban \<lparr>started = True, banned = [''peer'' \<mapsto> 61000]\<rparr> 2000 ''peer'' 60000))
         62000 ''peer'')) 0 ''peer'')"
  using ban_resets_expiry [where node = "\<lparr>started = True, banned = [''peer'' \<mapsto> 61000]\<rparr>"
      and now = 2000 and maxAge = 60000 and p = "''peer''" and t = 50000 and e = 61000]
    ban_resets_expiry [where node = "\<lparr>started = True, banned = [''peer'' \<mapsto> 61000]\<rparr>"
      and now = 2000 and maxAge = 60000 and p = "''peer''" and t = 62000 and t' = 0]
  by simp

text \<open>
  The claim as the specification words it fails: a peer banned until 300000 (a timeout
  ban) and banned again at time 1000 for 60000 (an error ban) is reported as not banned
  at time 100000, although the expiry set first has not elapsed, and although the same
  query answers true when the second ban is left out.
\<close>

theorem ban_shortens_counterexample:
  "snd (isBanned \<lparr>started = True, banned = [''peer'' \<mapsto> 300000]\<rparr> 100000 ''peer'')
   \<and> (100000 :: int) < 300000
   \<and> \<not> snd (isBanned
         (fst (ban \<lparr>started = True, banned = [''peer'' \<mapsto> 300000]\<rparr> 1000 ''peer'' 60000))
         100000 ''peer'')"
  by (simp add: ban_def isBanned_def)

section \<open>Properties of download\<close>

lemma constructor_defaults:
  "timeoutBanTime (constructor no_options) = 300000
   \<and> errorBanTime (constructor no_options) = 60000
   \<and> sync_count (constructor no_options) = 128
   \<and> sync_limit (constructor no_options) = 16"
  by (simp add: constructor_def no_options_def or_default_def)

lemma constructor_ban_times:
  "timeoutBanTime (constructor options) =
     (case opt_timeoutBanTime options of None \<Rightarrow> 300000 | Some t \<Rightarrow> if t = 0 then 300000 else t)
   \<and> errorBanTime (constructor options) =
     (case opt_errorBanTime options of None \<Rightarrow> 60000 | Some t \<Rightarrow> if t = 0 then 60000 else t)"
  by (simp add: constructor_def or_default_def)

lemma download_acquired:
  "download this getBlockHeaders ps (Inr peer) task =
     (case getBlockHeaders peer (start task) (count task) of
        Inr headers \<Rightarrow> (ps\<lparr>idle := (idle ps)(peer := True)\<rparr>, Inr (map (\<lambda>h. Block h []) headers))
      | Inl err \<Rightarrow>
          (ps\<lparr>idle := (idle ps)(peer := True),
              ban_calls := ban_calls ps @
                [(peer, if err = PeerRequestTimeoutError then timeoutBanTime this else errorBanTime this)]\<rparr>,
           Inl err))"
  by (simp add: download_def Let_def split: sum.splits)

text \<open>
  C4. Whenever \<^verbatim>\<open>download\<close> has acquired a peer, that peer is idle again when
  \<^verbatim>\<open>download\<close> is left, whatever the header request did. A request that fails with
  \<^verbatim>\<open>PeerRequestTimeoutError\<close> adds exactly one ban of the peer, for \<^verbatim>\<open>timeoutBanTime\<close>;
  a request that fails with any other error adds exactly one ban, for \<^verbatim>\<open>errorBanTime\<close>;
  in both cases the same error leaves \<^verbatim>\<open>download\<close>. A request that succeeds adds no ban
  and returns one block for each header. The two times are those of the options, and
  300000 ms and 60000 ms where the options give none, the second the shorter. Since the
  error leaves \<^verbatim>\<open>download\<close>, the queue runs the task again with the next peer it acquires:
  when that peer answers, the task ends with its blocks, both peers are idle, and the
  first peer has its one ban.
\<close>

theorem download_releases_and_bans:
  fixes getBlockHeaders :: "'p \<Rightarrow> int \<Rightarrow> int \<Rightarrow> error + 'h list"
    and r :: "'p peers \<times> (error + ('h, 'tx) Block list)"
    and again :: "'p peers \<times> ('h, 'tx) Block list option"
  assumes "r = download this getBlockHeaders ps (Inr peer) task"
    and "again = process_task this getBlockHeaders ps [peer, other] task"
  shows "idle (fst r) peer
     \<and> (\<forall>q. q \<noteq> peer \<longrightarrow> idle (fst r) q = idle ps q)
     \<and> (getBlockHeaders peer (start task) (count task) = Inl PeerRequestTimeoutError \<longrightarrow>
          ban_calls (fst r) = ban_calls ps @ [(peer, timeoutBanTime this)]
          \<and> snd r = Inl PeerRequestTimeoutError)
     \<and> (\<forall>err. getBlockHeaders peer (start task) (count task) = Inl err \<and> err \<noteq> PeerRequestTimeoutError \<longrightarrow>
          ban_calls (fst r) = ban_calls ps @ [(peer, errorBanTime this)] \<and> snd r = Inl err)
     \<and> (\<forall>headers. getBlockHeaders peer (start task) (count task) = Inr headers \<longrightarrow>
          ban_calls (fst r) = ban_calls ps \<and> snd r = Inr (map (\<lambda>h. Block h []) headers))
     \<and> timeoutBanTime (constructor no_options) = 300000
     \<and> errorBanTime (constructor no_options) = 60000
     \<and> errorBanTime (constructor no_options) < timeoutBanTime (constructor no_options)
     \<and> (\<forall>t. opt_timeoutBanTime options = Some t \<and> t \<noteq> 0 \<longrightarrow> timeoutBanTime (constructor options) = t)
     \<and> (\<forall>t. opt_errorBanTime options = Some t \<and> t \<noteq> 0 \<longrightarrow> errorBanTime (constructor options) = t)
     \<and> (\<forall>err later. getBlockHeaders peer (start task) (count task) = Inl err \<longrightarrow>
          process_task this getBlockHeaders ps (peer # later) task
            = process_task this getBlockHeaders ((fst r)\<lparr>emitted := emitted (fst r) @ [err]\<rparr>) later task)
     \<and> (\<forall>headers later. getBlockHeaders peer (start task) (count task) = Inr headers \<longrightarrow>
          process_task this getBlockHeaders ps (peer # later) task
            = (fst r, Some (map (\<lambda>h. Block h []) headers)))
     \<and> (\<forall>err headers. getBlockHeaders peer (start task) (count task) = Inl err
            \<and> getBlockHeaders other (start task) (count task) = Inr headers \<and> other \<noteq> peer \<longrightarrow>
          snd again = Some (map (\<lambda>h. Block h []) headers)
          \<and> idle (fst again) peer \<and> idle (fst again) other
          \<and> ban_calls (fst again) = ban_calls ps @
               [(peer, if err = PeerRequestTimeoutError then timeoutBanTime this else errorBanTime this)]
          \<and> emitted (fst again) = emitted ps @ [err])"
proof -
  have on_download: "idle (fst r) peer
     \<and> (\<forall>q. q \<noteq> peer \<longrightarrow> idle (fst r) q = idle ps q)
     \<and> (getBlockHeaders peer (start task) (count task) = Inl PeerRequestTimeoutError \<longrightarrow>
          ban_calls (fst r) = ban_calls ps @ [(peer, timeoutBanTime this)]
          \<and> snd r = Inl PeerRequestTimeoutError)
     \<and> (\<forall>err. getBlockHeaders peer (start task) (count task) = Inl err \<and> err \<noteq> PeerRequestTimeoutError \<longrightarrow>
          ban_calls (fst r) = ban_calls ps @ [(peer, errorBanTime this)] \<and> snd r = Inl err)
     \<and> (\<forall>headers. getBlockHeaders peer (start task) (count task) = Inr headers \<longrightarrow>
          ban_calls (fst r) = ban_calls ps \<and> snd r = Inr (map (\<lambda>h. Block h []) headers))"
    using assms(1) by (auto simp: download_def Let_def split: sum.splits)
  have configured: "(\<forall>t. opt_timeoutBanTime options = Some t \<and> t \<noteq> 0 \<longrightarrow> timeoutBanTime (constructor options) = t)
     \<and> (\<forall>t. opt_errorBanTime options = Some t \<and> t \<noteq> 0 \<longrightarrow> errorBanTime (constructor options) = t)"
    by (simp add: constructor_ban_times)
  have retried: "\<forall>err later. getBlockHeaders peer (start task) (count task) = Inl err \<longrightarrow>
      process_task this getBlockHeaders ps (peer # later) task
        = process_task this getBlockHeaders ((fst r)\<lparr>emitted := emitted (fst r) @ [err]\<rparr>) later task"
    using assms(1) by (simp add: download_acquired)
  have answered: "\<forall>headers later. getBlockHeaders peer (start task) (count task) = Inr headers \<longrightarrow>
      process_task this getBlockHeaders ps (peer # later) task = (fst r, Some (map (\<lambda>h. Block h []) headers))"
    using assms(1) by (simp add: download_acquired)
  have second: "\<forall>err headers. getBlockHeaders peer (start task) (count task) = Inl err
        \<and> getBlockHeaders other (start task) (count task) = Inr headers \<and> other \<noteq> peer \<longrightarrow>
      snd again = Some (map (\<lambda>h. Block h []) headers)
      \<and> idle (fst again) peer \<and> idle (fst again) other
      \<and> ban_calls (fst again) = ban_calls ps @
           [(peer, if err = PeerRequestTimeoutError then timeoutBanTime this else errorBanTime this)]
      \<and> emitted (fst again) = emitted ps @ [err]"
    using assms(2) by (simp add: download_acquired)
  have defaults: "timeoutBanTime (constructor no_options) = 300000
     \<and> errorBanTime (constructor no_options) = 60000
     \<and> errorBanTime (constructor no_options) < timeoutBanTime (constructor no_options)"
    by (simp add: constructor_defaults)
  from on_download defaults configured retried answered second show ?thesis
    by blast
qed

text \<open>
  Witness: the timeout ban is configured as 5000 ms; peer 1 times out on the task
  \<^verbatim>\<open>{start: 11, count: 5}\<close> and peer 2 answers when the task is run again.
\<close>

theorem download_releases_and_bans_witness:
  "idle (fst (download (constructor (no_options\<lparr>opt_timeoutBanTime := Some 5000\<rparr>))
            (\<lambda>p s c. if p = (1::nat) then Inl PeerRequestTimeoutError else Inr [s .. s + c - 1])
            \<lparr>idle = (\<lambda>p. True), ban_calls = [], emitted = []\<rparr> (Inr 1) \<lparr>start = 11, count = 5\<rparr>
          :: nat peers \<times> (error + (int, unit) Block list))) 1
   \<and> ban_calls (fst (download (constructor (no_options\<lparr>opt_timeoutBanTime := Some 5000\<rparr>))
            (\<lambda>p s c. if p = (1::nat) then Inl PeerRequestTimeoutError else Inr [s .. s + c - 1])
            \<lparr>idle = (\<lambda>p. True), ban_calls = [], emitted = []\<rparr> (Inr 1) \<lparr>start = 11, count = 5\<rparr>
          :: nat peers \<times> (error + (int, unit) Block list))) = [(1, 5000)]
   \<and> snd (download (constructor (no_options\<lparr>opt_timeoutBanTime := Some 5000\<rparr>))
            (\<lambda>p s c. if p = (1::nat) then Inl PeerRequestTimeoutError else Inr [s .. s + c - 1])
            \<lparr>idle = (\<lambda>p. True), ban_calls = [], emitted = []\<rparr> (Inr 1) \<lparr>start = 11, count = 5\<rparr>
          :: nat peers \<times> (error + (int, unit) Block list)) = Inl PeerRequestTimeoutError
   \<and> snd (process_task (constructor (no_options\<lparr>opt_timeoutBanTime := Some 5000\<rparr>))
            (\<lambda>p s c. if p = (1::nat) then Inl PeerRequestTimeoutError else Inr [s .. s + c - 1])
            \<lparr>idle = (\<lambda>p. True), ban_calls = [], emitted = []\<rparr> [1, 2] \<lparr>start = 11, count = 5\<rparr>
          :: nat peers \<times> (int, unit) Block list option)
       = Some [Block 11 [], Block 12 [], Block 13 [], Block 14 [], Block 15 []]
   \<and> ban_calls (fst (process_task (constructor (no_options\<lparr>opt_timeoutBanTime := Some 5000\<rparr>))
            (\<lambda>p s c. if p = (1::nat) then Inl PeerRequestTimeoutError else Inr [s .. s + c - 1])
            \<lparr>idle = (\<lambda>p. True), ban_calls = [], emitted = []\<rparr> [1, 2] \<lparr>start = 11, count = 5\<rparr>
          :: nat peers \<times> (int, unit) Block list option)) = [(1, 5000)]"
  using download_releases_and_bans [OF refl refl, where 'tx = unit
      and this = "constructor (no_options\<lparr>opt_timeoutBanTime := Some 5000\<rparr>)"
      and options = "no_options\<lparr>opt_timeoutBanTime := Some 5000\<rparr>"
      and getBlockHeaders = "\<lambda>p s c. if p = (1::nat) then Inl PeerRequestTimeoutError else Inr [s .. s + c - 1]"
      and ps = "\<lparr>idle = (\<lambda>p. True), ban_calls = [], emitted = []\<rparr>" and peer = 1 and other = 2
      and task = "\<lparr>start = 11, count = 5\<rparr>"]
  by (simp add: no_options_def upto.simps download_def constructor_def or_default_def Let_def)

section \<open>Properties of sync\<close>

subsection \<open>The best peer and the tasks\<close>

lemma find_best_fold:
  "snd (find_best peers (best, h)) = fold max (map snd peers) h"
proof (induction peers arbitrary: best h)
  case Nil
  then show ?case by simp
next
  case (Cons a peers)
  obtain p ph where a: "a = (p, ph)" by (cases a)
  show ?case
    using Cons.IH [of "Some p" ph] Cons.IH [of best h] a
    by (auto simp: max_def)
qed

lemma find_best_height:
  "snd (find_best peers (best, h)) = Max (insert h (snd ` set peers))"
proof -
  have "Max (set (h # map snd peers)) = fold max (map snd peers) h"
    by (rule Max.set_eq_fold)
  then show ?thesis
    by (simp add: find_best_fold)
qed

lemma insert_tasks_steps:
  assumes "0 < cnt"
  shows "(int n - 1) * cnt < tot \<Longrightarrow> tot \<le> int n * cnt \<Longrightarrow>
     insert_tasks cnt l tot k q =
       Some (q @ map (\<lambda>j. \<lparr>start = (k + int j) * cnt + l + 1, count = min cnt (tot - int j * cnt)\<rparr>) [0 ..< n],
             k + int n)"
proof (induction n arbitrary: tot k q)
  case 0
  then have "\<not> 0 < tot" by simp
  then show ?case
    by (subst insert_tasks.simps) simp
next
  case (Suc n)
  have n: "int (Suc n) - 1 = int n" by simp
  have "0 \<le> int n * cnt" using assms by simp
  with Suc.prems(1) have pos: "0 < tot" unfolding n by linarith
  have lo: "(int n - 1) * cnt < tot - cnt"
    using Suc.prems(1) by (simp add: algebra_simps)
  have hi: "tot - cnt \<le> int n * cnt"
    using Suc.prems(2) by (simp add: algebra_simps)
  let ?t = "\<lparr>start = k * cnt + l + 1, count = (if tot > cnt then cnt else tot)\<rparr>"
  let ?f = "\<lambda>j. \<lparr>start = (k + int j) * cnt + l + 1, count = min cnt (tot - int j * cnt)\<rparr>"
  have first: "?t = ?f 0"
    by (simp add: min_def)
  have rest: "map (\<lambda>j. \<lparr>start = (k + 1 + int j) * cnt + l + 1, count = min cnt (tot - cnt - int j * cnt)\<rparr>) [0 ..< n]
      = map ?f (map Suc [0 ..< n])"
    by (simp add: algebra_simps)
  have upt: "[0 ..< Suc n] = 0 # map Suc [0 ..< n]"
    by (simp only: map_Suc_upt upt_conv_Cons [of 0 "Suc n"] zero_less_Suc)
  have "insert_tasks cnt l tot k q = insert_tasks cnt l (tot - cnt) (k + 1) (q @ [?t])"
    using pos by (subst insert_tasks.simps) simp
  also have "\<dots> = Some ((q @ [?t]) @ map (\<lambda>j. \<lparr>start = (k + 1 + int j) * cnt + l + 1,
        count = min cnt (tot - cnt - int j * cnt)\<rparr>) [0 ..< n], k + 1 + int n)"
    using Suc.IH [OF lo hi] .
  also have "\<dots> = Some (q @ map ?f [0 ..< Suc n], k + int (Suc n))"
    unfolding rest first upt by simp
  finally show ?case .
qed

lemma task_number_bounds:
  assumes "0 < cnt" and "l < b"
  shows "(int (task_number cnt l b) - 1) * cnt < b - l \<and> b - l \<le> int (task_number cnt l b) * cnt"
proof -
  let ?x = "b - l + cnt - 1"
  have "?x = cnt * (?x div cnt) + ?x mod cnt" by simp
  moreover have "0 \<le> ?x mod cnt" "?x mod cnt < cnt" using assms by simp_all
  ultimately have d1: "cnt * (?x div cnt) \<le> ?x" and d2: "?x < cnt * (?x div cnt) + cnt"
    by linarith+
  have "0 \<le> ?x" using assms by simp
  then have "0 \<le> ?x div cnt"
    using assms by (simp add: pos_imp_zdiv_nonneg_iff)
  then have "int (task_number cnt l b) = ?x div cnt"
    by (simp add: task_number_def)
  with d1 d2 show ?thesis by (simp add: algebra_simps)
qed

lemma task_number_none:
  assumes "0 < cnt" and "b \<le> l"
  shows "task_number cnt l b = 0"
proof -
  have "b - l + cnt - 1 < cnt" using assms by simp
  then have "(b - l + cnt - 1) div cnt \<le> 0"
    using assms by (cases "0 \<le> b - l + cnt - 1") (simp_all add: div_pos_pos_trivial div_neg_pos_less0 less_imp_le)
  then show ?thesis by (simp add: task_number_def)
qed

lemma insert_tasks_scheduled:
  assumes "0 < cnt"
  shows "insert_tasks cnt l (b - l) 0 [] =
     Some (scheduled_tasks cnt l b, int (length (scheduled_tasks cnt l b)))"
proof (cases "b \<le> l")
  case True
  with task_number_none [OF assms True] show ?thesis
    by (subst insert_tasks.simps) (simp add: scheduled_tasks_def)
next
  case False
  then have "l < b" by simp
  from task_number_bounds [OF assms this]
  have "(int (task_number cnt l b) - 1) * cnt < b - l" "b - l \<le> int (task_number cnt l b) * cnt"
    by auto
  from insert_tasks_steps [OF assms this, of l 0 "[]"] show ?thesis
    by (simp add: scheduled_tasks_def)
qed

lemma find_best_peer:
  "fst (find_best peers (best, h)) = None \<longleftrightarrow> best = None \<and> (\<forall>(p, ph) \<in> set peers. ph \<le> h)"
proof (induction peers arbitrary: best h)
  case Nil
  then show ?case by simp
next
  case (Cons a peers)
  obtain p ph where a: "a = (p, ph)" by (cases a)
  show ?case
    using Cons.IH [of "Some p" ph] Cons.IH [of best h] a
    by (auto split: if_splits)
qed

subsection \<open>The result of sync\<close>

text \<open>
  C2, as the code has it. With a positive \<^verbatim>\<open>count\<close>, and the awaited calls settling,
  \<^verbatim>\<open>sync\<close> returns or throws. It returns true exactly when it was not already syncing,
  the reset of the queue did not throw, some peer advertises a height above the local
  height (so that tasks are inserted and the queue is started), neither the start of the
  queue nor the consumer threw, and the height of the chain at the end is the best height
  seen at the beginning: the greatest of the local height and the heights the peers
  advertise.
\<close>

theorem sync_true_iff:
  assumes "0 < sync_count this"
  shows "sync this isSyncing queue_reset l peers queue_start consumer finalHeight \<noteq> None
     \<and> (sync this isSyncing queue_reset l peers queue_start consumer finalHeight = Some (Inr True) \<longleftrightarrow>
          \<not> isSyncing
          \<and> queue_reset = None
          \<and> (\<exists>(p, h) \<in> set peers. l < h)
          \<and> queue_start (scheduled_tasks (sync_count this) l (Max (insert l (snd ` set peers))))
               (int (length (scheduled_tasks (sync_count this) l (Max (insert l (snd ` set peers)))))) = None
          \<and> consumer = None
          \<and> finalHeight = Max (insert l (snd ` set peers)))"
proof (cases "find_best peers (None, l)")
  case (Pair best bestHeight)
  have h: "bestHeight = Max (insert l (snd ` set peers))"
    using find_best_height [of peers None l] Pair by simp
  have b: "best = None \<longleftrightarrow> \<not> (\<exists>(p, h) \<in> set peers. l < h)"
    using find_best_peer [of peers None l] Pair by (auto simp: not_less)
  show ?thesis
  proof (cases best)
    case None
    with Pair b show ?thesis by (simp add: sync_def split: option.splits)
  next
    case (Some p)
    with Pair b h insert_tasks_scheduled [OF assms, of l bestHeight] show ?thesis
      by (auto simp: sync_def split: option.splits)
  qed
qed

theorem sync_true_iff_witness:
  "sync example_synchronizer False None 10 [(''best'', 20)] (\<lambda>tasks n. None) None 20 = Some (Inr True)"
  using sync_true_iff [where this = example_synchronizer and isSyncing = False and queue_reset = None and l = 10
      and peers = "[(''best'', 20)]" and queue_start = "\<lambda>tasks n. None" and consumer = None
      and finalHeight = 20]
  by (simp add: example_synchronizer_def constructor_def or_default_def)

text \<open>
  The claim as the specification words it fails when no peer is ahead: the node is at
  height 10 and its only peer advertises height 10. Nothing throws, the best height is
  10 and the chain ends at height 10, but \<^verbatim>\<open>sync\<close> returns false: the producer sets its
  result only after it has started the queue.
\<close>

theorem sync_no_peer_ahead_counterexample:
  "find_best [(''peer'', 10)] (None, 10) = (None :: string option, 10)
   \<and> sync (constructor no_options) False None 10 [(''peer'', 10)] (\<lambda>tasks n. None) None 10
       = Some (Inr False)"
  by (simp add: sync_def)

subsection \<open>The order of the results\<close>

lemma release_in_order:
  "map fst (released q) = [0 ..< next_index q] \<Longrightarrow>
   map fst (released (release q)) = [0 ..< next_index (release q)]"
proof (induction q rule: release.induct)
  case (1 q)
  show ?case
  proof (cases "map_of (waiting q) (next_index q)")
    case None
    with "1.prems" show ?thesis by (simp add: release.simps [of q])
  next
    case (Some r)
    let ?q' = "q\<lparr>next_index := Suc (next_index q),
                waiting := filter (\<lambda>e. fst e \<noteq> next_index q) (waiting q),
                released := released q @ [(next_index q, r)]\<rparr>"
    have "map fst (released ?q') = [0 ..< next_index ?q']"
      using "1.prems" by simp
    from "1.IH" [OF Some this] Some show ?thesis
      by (simp add: release.simps [of q])
  qed
qed

lemma release_from_completions:
  "set (released (release q)) \<subseteq> set (released q) \<union> set (waiting q)"
proof (induction q rule: release.induct)
  case (1 q)
  show ?case
  proof (cases "map_of (waiting q) (next_index q)")
    case None
    then show ?thesis by (simp add: release.simps [of q])
  next
    case (Some r)
    then have "(next_index q, r) \<in> set (waiting q)"
      by (rule map_of_SomeD)
    with "1.IH" [OF Some] Some show ?thesis
      by (auto simp: release.simps [of q])
  qed
qed

lemma release_waiting:
  "set (waiting (release q)) \<subseteq> set (waiting q)"
proof (induction q rule: release.induct)
  case (1 q)
  show ?case
  proof (cases "map_of (waiting q) (next_index q)")
    case None
    then show ?thesis by (simp add: release.simps [of q])
  next
    case (Some r)
    with "1.IH" [OF Some] show ?thesis
      by (auto simp: release.simps [of q])
  qed
qed

lemma release_indices:
  "fst ` set (waiting (release q)) \<union> {0 ..< next_index (release q)}
     = fst ` set (waiting q) \<union> {0 ..< next_index q}"
proof (induction q rule: release.induct)
  case (1 q)
  show ?case
  proof (cases "map_of (waiting q) (next_index q)")
    case None
    then show ?thesis by (simp add: release.simps [of q])
  next
    case (Some r)
    then have "(next_index q, r) \<in> set (waiting q)"
      by (rule map_of_SomeD)
    then have "next_index q \<in> fst ` set (waiting q)"
      by force
    then have "fst ` set (filter (\<lambda>e. fst e \<noteq> next_index q) (waiting q)) \<union> {0 ..< Suc (next_index q)}
        = fst ` set (waiting q) \<union> {0 ..< next_index q}"
      by (force simp: less_Suc_eq)
    with "1.IH" [OF Some] Some show ?thesis
      by (simp add: release.simps [of q])
  qed
qed

lemma release_blocked:
  "next_index (release q) \<notin> fst ` set (waiting (release q))"
proof (induction q rule: release.induct)
  case (1 q)
  show ?case
  proof (cases "map_of (waiting q) (next_index q)")
    case None
    then have "next_index q \<notin> fst ` set (waiting q)"
      by (simp add: map_of_eq_None_iff)
    moreover have "release q = q"
      using None by (simp add: release.simps [of q])
    ultimately show ?thesis by simp
  next
    case (Some r)
    with "1.IH" [OF Some] show ?thesis
      by (simp add: release.simps [of q])
  qed
qed

lemma run_queue_snoc: "run_queue (cs @ [c]) = complete (run_queue cs) c"
  by (simp add: run_queue_def)

lemma run_queue_in_order:
  "map fst (released (run_queue cs)) = [0 ..< next_index (run_queue cs)]"
proof (induction cs rule: rev_induct)
  case Nil
  then show ?case by (simp add: run_queue_def empty_queue_def)
next
  case (snoc c cs)
  then show ?case
    by (simp add: run_queue_snoc complete_def release_in_order)
qed

lemma run_queue_from_completions:
  "set (released (run_queue cs)) \<union> set (waiting (run_queue cs)) \<subseteq> set cs"
proof (induction cs rule: rev_induct)
  case Nil
  then show ?case by (simp add: run_queue_def empty_queue_def)
next
  case (snoc c cs)
  let ?q = "(run_queue cs)\<lparr>waiting := waiting (run_queue cs) @ [c]\<rparr>"
  have "set (released (release ?q)) \<subseteq> set (released ?q) \<union> set (waiting ?q)"
    by (rule release_from_completions)
  moreover have "set (waiting (release ?q)) \<subseteq> set (waiting ?q)"
    by (rule release_waiting)
  ultimately show ?case
    using snoc by (auto simp: run_queue_snoc complete_def)
qed

lemma run_queue_indices:
  "fst ` set (waiting (run_queue cs)) \<union> {0 ..< next_index (run_queue cs)} = fst ` set cs"
proof (induction cs rule: rev_induct)
  case Nil
  then show ?case by (simp add: run_queue_def empty_queue_def)
next
  case (snoc c cs)
  let ?q = "(run_queue cs)\<lparr>waiting := waiting (run_queue cs) @ [c]\<rparr>"
  have "fst ` set (waiting (release ?q)) \<union> {0 ..< next_index (release ?q)}
      = fst ` set (waiting ?q) \<union> {0 ..< next_index ?q}"
    by (rule release_indices)
  with snoc show ?case
    by (simp add: run_queue_snoc complete_def)
qed

lemma run_queue_blocked:
  "next_index (run_queue cs) \<notin> fst ` set (waiting (run_queue cs))"
proof (cases cs rule: rev_cases)
  case Nil
  then show ?thesis by (simp add: run_queue_def empty_queue_def)
next
  case (snoc cs' c)
  then show ?thesis
    by (simp only: run_queue_snoc complete_def release_blocked not_False_eq_True)
qed

lemma run_queue_all_released:
  assumes "fst ` set cs = {0 ..< n}"
  shows "next_index (run_queue cs) = n"
proof -
  let ?q = "run_queue cs"
  have idx: "fst ` set (waiting ?q) \<union> {0 ..< next_index ?q} = {0 ..< n}"
    using run_queue_indices [of cs] assms by simp
  then have "{0 ..< next_index ?q} \<subseteq> {0 ..< n}" by blast
  then have le: "next_index ?q \<le> n" by auto
  have "\<not> next_index ?q < n"
  proof
    assume "next_index ?q < n"
    then have "next_index ?q \<in> fst ` set (waiting ?q) \<union> {0 ..< next_index ?q}"
      using idx by simp
    then show False using run_queue_blocked [of cs] by simp
  qed
  with le show ?thesis by simp
qed

text \<open>
  C1. Whatever the order in which the tasks complete, the consumer reads the results in
  the order of the task indices: the first result it reads is that of task 0, the next
  that of task 1, and so on, so it never reads the result of task \<^verbatim>\<open>i + 1\<close> before
  that of task \<^verbatim>\<open>i\<close>. Every result it reads is a completion. When each of the tasks
  \<^verbatim>\<open>0\<close> to \<^verbatim>\<open>n - 1\<close> completes once, it reads the results of all of them.
\<close>

theorem consumer_receives_in_order:
  "map fst (consumer_receives completions) = [0 ..< length (consumer_receives completions)]
   \<and> set (consumer_receives completions) \<subseteq> set completions
   \<and> (distinct (map fst completions) \<and> fst ` set completions = {0 ..< n} \<longrightarrow>
        consumer_receives completions = map (\<lambda>i. (i, the (map_of completions i))) [0 ..< n])"
proof -
  let ?rs = "consumer_receives completions"
  have order: "map fst ?rs = [0 ..< next_index (run_queue completions)]"
    by (simp add: consumer_receives_def run_queue_in_order)
  then have "length ?rs = next_index (run_queue completions)"
    by (metis length_map length_upt minus_nat.diff_0)
  with order have first: "map fst ?rs = [0 ..< length ?rs]" by simp
  have sub: "set ?rs \<subseteq> set completions"
    using run_queue_from_completions [of completions] by (simp add: consumer_receives_def)
  have all: "?rs = map (\<lambda>i. (i, the (map_of completions i))) [0 ..< n]"
    if d: "distinct (map fst completions)" and c: "fst ` set completions = {0 ..< n}"
  proof -
    have "\<And>e. e \<in> set ?rs \<Longrightarrow> e = (fst e, the (map_of completions (fst e)))"
    proof -
      fix e assume "e \<in> set ?rs"
      with sub have "(fst e, snd e) \<in> set completions" by auto
      with d have "map_of completions (fst e) = Some (snd e)" by simp
      then show "e = (fst e, the (map_of completions (fst e)))" by simp
    qed
    then have "map (\<lambda>e. e) ?rs = map ((\<lambda>i. (i, the (map_of completions i))) \<circ> fst) ?rs"
      by (intro map_cong) auto
    then have "?rs = map (\<lambda>i. (i, the (map_of completions i))) (map fst ?rs)"
      by simp
    with order run_queue_all_released [OF c] show ?thesis by simp
  qed
  from first sub all show ?thesis by blast
qed

theorem consumer_receives_in_order_witness:
  "consumer_receives [(1, ''b''), (2 :: nat, ''c''), (0, ''a'')] = [(0, ''a''), (1, ''b''), (2, ''c'')]"
  using consumer_receives_in_order [of "[(1, ''b''), (2, ''c''), (0, ''a'')]" 3]
  by (simp add: atLeast0_lessThan_Suc eval_nat_numeral insert_commute)

subsection \<open>The scenario\<close>






section \<open>Properties of the journal\<close>

lemma insert_all_bytes:
  "insert_all serialize journal ts = Inr (journal @ concat (map (\<lambda>tx. serialize tx @ bufferSplit) ts))"
  by (induction ts arbitrary: journal) (simp_all add: insert_tx_def)

lemma indexOf_record:
  "indexOf s bufferSplit = None \<Longrightarrow> indexOf (s @ bufferSplit @ rest) bufferSplit = Some (length s)"
proof (induction s)
  case Nil
  then show ?case by (simp add: bufferSplit_def)
next
  case (Cons x xs)
  from Cons.prems have no: "\<not> prefix bufferSplit (x # xs)" and tl: "indexOf xs bufferSplit = None"
    by (auto split: if_splits)
  have "\<not> prefix bufferSplit ((x # xs) @ bufferSplit @ rest)"
  proof (cases xs)
    case Nil
    then show ?thesis by (simp add: bufferSplit_def)
  next
    case (Cons y ys)
    with no show ?thesis by (simp add: bufferSplit_def)
  qed
  with Cons.IH [OF tl] show ?case by simp
qed

lemma push_batch_buffer:
  "(push_batch (st\<lparr>bufferInput := x\<rparr>) tx)\<lparr>bufferInput := y\<rparr> = (push_batch st tx)\<lparr>bufferInput := y\<rparr>"
  by (simp add: push_batch_def Let_def)

lemma parse_records_journal:
  assumes "indexOf rest bufferSplit = None"
  shows "(\<forall>tx \<in> set ts. parse (serialize tx) = Inr tx \<and> indexOf (serialize tx) bufferSplit = None) \<Longrightarrow>
     parse_records parse (st\<lparr>bufferInput := concat (map (\<lambda>tx. serialize tx @ bufferSplit) ts) @ rest\<rparr>)
       = ((foldl push_batch st ts)\<lparr>bufferInput := rest\<rparr>, None)"
proof (induction ts arbitrary: st)
  case Nil
  with assms show ?case
    by (subst parse_records.simps) simp
next
  case (Cons tx ts)
  let ?more = "concat (map (\<lambda>tx. serialize tx @ bufferSplit) ts) @ rest"
  have at: "indexOf (serialize tx @ bufferSplit @ ?more) bufferSplit = Some (length (serialize tx))"
    using Cons.prems by (simp add: indexOf_record)
  have parsed: "parse (serialize tx) = Inr tx"
    using Cons.prems by simp
  have "parse_records parse (st\<lparr>bufferInput := concat (map (\<lambda>tx. serialize tx @ bufferSplit) (tx # ts)) @ rest\<rparr>)
      = parse_records parse ((push_batch st tx)\<lparr>bufferInput := ?more\<rparr>)"
    using at parsed by (subst parse_records.simps) (simp add: push_batch_buffer)
  also have "\<dots> = ((foldl push_batch (push_batch st tx) ts)\<lparr>bufferInput := rest\<rparr>, None)"
    using Cons.prems by (intro Cons.IH) simp
  finally show ?case by simp
qed

lemma push_batch_all:
  "concat (added (foldl push_batch st ts)) @ batch (foldl push_batch st ts)
     = concat (added st) @ batch st @ ts"
  by (induction ts arbitrary: st) (auto simp: push_batch_def Let_def)

lemma push_batch_step:
  assumes "length (batch st) \<le> 1024"
  shows "length (batch (push_batch st tx)) \<le> 1024
     \<and> (added (push_batch st tx) = added st
        \<or> added (push_batch st tx) = added st @ [batch st @ [tx]] \<and> length (batch st @ [tx]) = 1025)"
proof (cases "length (batch st) = 1024")
  case True
  then show ?thesis by (simp add: push_batch_def Let_def)
next
  case False
  with assms have "length (batch st) < 1024" by simp
  then show ?thesis by (simp add: push_batch_def Let_def)
qed

lemma push_batch_sizes:
  "length (batch st) \<le> 1024 \<Longrightarrow> (\<forall>b \<in> set (added st). b \<noteq> [] \<and> length b \<le> 1025) \<Longrightarrow>
   length (batch (foldl push_batch st ts)) \<le> 1024
   \<and> (\<forall>b \<in> set (added (foldl push_batch st ts)). b \<noteq> [] \<and> length b \<le> 1025)"
proof (induction ts arbitrary: st)
  case Nil
  then show ?case by simp
next
  case (Cons tx ts)
  from push_batch_step [OF Cons.prems(1), of tx]
  have small: "length (batch (push_batch st tx)) \<le> 1024"
    and grow: "added (push_batch st tx) = added st
        \<or> added (push_batch st tx) = added st @ [batch st @ [tx]] \<and> length (batch st @ [tx]) = 1025"
    by blast+
  have "\<forall>b \<in> set (added (push_batch st tx)). b \<noteq> [] \<and> length b \<le> 1025"
    using grow
  proof (elim disjE conjE)
    assume same: "added (push_batch st tx) = added st"
    show ?thesis unfolding same using Cons.prems(2) .
  next
    assume more: "added (push_batch st tx) = added st @ [batch st @ [tx]]"
      and full: "length (batch st @ [tx]) = 1025"
    have "batch st @ [tx] \<noteq> [] \<and> length (batch st @ [tx]) \<le> 1025"
      using full by simp
    with Cons.prems(2) show ?thesis unfolding more by simp
  qed
  with small Cons.IH [of "push_batch st tx"] show ?case
    by simp
qed

lemma push_batch_few:
  "length (batch st) + length ts \<le> 1024 \<Longrightarrow> foldl push_batch st ts = st\<lparr>batch := batch st @ ts\<rparr>"
  by (induction ts arbitrary: st) (simp_all add: push_batch_def Let_def)

text \<open>
  A journal read as one chunk. Take transactions whose serialization does not contain
  the delimiter and parses back to the transaction, insert them into an empty journal,
  every write succeeding, and let any bytes without a delimiter follow. When the read
  stream delivers this file as one chunk, \<^verbatim>\<open>load\<close> resolves, and the batches it has handed
  to \<^verbatim>\<open>add\<close> hold exactly the inserted transactions, each once and in the order of
  insertion; no batch is empty, and up to 1024 transactions arrive as a single batch. The
  trailing bytes are dropped.
\<close>

lemma load_single_chunk:
  assumes "\<forall>tx \<in> set ts. parse (serialize tx) = Inr tx \<and> indexOf (serialize tx) bufferSplit = None"
    and "indexOf rest bufferSplit = None"
    and "insert_all serialize [] ts = Inr journal"
  shows "\<exists>batches. load parse (Some ([journal @ rest], None)) = (batches, Resolved ())
     \<and> concat batches = ts
     \<and> (\<forall>b \<in> set batches. b \<noteq> [] \<and> length b \<le> 1025)
     \<and> (ts \<noteq> [] \<and> length ts \<le> 1024 \<longrightarrow> batches = [ts])"
proof -
  let ?init = "\<lparr>batch = [], bufferInput = [], added = []\<rparr> :: 'a loading"
  let ?final = "foldl push_batch ?init ts"
  have journal: "journal = concat (map (\<lambda>tx. serialize tx @ bufferSplit) ts)"
    using assms(3) by (simp add: insert_all_bytes)
  have parsed: "parse_records parse (?init\<lparr>bufferInput := journal @ rest\<rparr>)
      = (?final\<lparr>bufferInput := rest\<rparr>, None)"
    unfolding journal using assms(1) by (intro parse_records_journal [OF assms(2)]) simp
  have all: "concat (added ?final) @ batch ?final = ts"
    using push_batch_all [of ?init ts] by simp
  have sizes: "length (batch ?final) \<le> 1024 \<and> (\<forall>b \<in> set (added ?final). b \<noteq> [] \<and> length b \<le> 1025)"
    by (rule push_batch_sizes) simp_all
  let ?batches = "if length (batch ?final) > 0 then added ?final @ [batch ?final] else added ?final"
  have loaded: "load parse (Some ([journal @ rest], None)) = (?batches, Resolved ())"
    using parsed by (simp add: load_def on_data_def)
  have whole: "concat ?batches = ts"
    using all by auto
  have bounded: "\<forall>b \<in> set ?batches. b \<noteq> [] \<and> length b \<le> 1025"
    using sizes by auto
  have single: "?batches = [ts]" if "ts \<noteq> []" "length ts \<le> 1024"
  proof -
    have "?final = ?init\<lparr>batch := ts\<rparr>"
      using push_batch_few [of ?init ts] that(2) by simp
    with that(1) show ?thesis by simp
  qed
  from loaded whole bounded single show ?thesis by blast
qed

text \<open>
  The batch is handed over when it holds more than 1024 transactions, not before: a
  journal of exactly 1025 transactions, read as one chunk, arrives as one batch of 1025.
\<close>

lemma load_1025:
  assumes "\<forall>tx \<in> set ts. parse (serialize tx) = Inr tx \<and> indexOf (serialize tx) bufferSplit = None"
    and "length ts = 1025"
  shows "load parse (Some ([concat (map (\<lambda>tx. serialize tx @ bufferSplit) ts)], None))
     = ([ts], Resolved ())"
proof -
  let ?init = "\<lparr>batch = [], bufferInput = [], added = []\<rparr> :: 'a loading"
  obtain xs x where ts: "ts = xs @ [x]" and xs: "length xs = 1024"
    using assms(2) by (cases ts rule: rev_cases) auto
  have "foldl push_batch ?init xs = ?init\<lparr>batch := xs\<rparr>"
    using push_batch_few [of ?init xs] xs by simp
  then have st: "foldl push_batch ?init ts = ?init\<lparr>batch := [], added := [ts]\<rparr>"
    using xs by (simp add: ts push_batch_def Let_def)
  have "parse_records parse (?init\<lparr>bufferInput := concat (map (\<lambda>tx. serialize tx @ bufferSplit) ts) @ []\<rparr>)
      = ((foldl push_batch ?init ts)\<lparr>bufferInput := []\<rparr>, None)"
    using assms(1) by (intro parse_records_journal) (simp_all add: bufferSplit_def)
  with st show ?thesis
    by (simp add: load_def on_data_def)
qed

text \<open>
  A journal read as two chunks, the first holding the records of \<^verbatim>\<open>ts1\<close> and the second
  those of \<^verbatim>\<open>ts2\<close>: since the batch is not emptied after the call of \<^verbatim>\<open>add\<close> at the end of
  the first \<^verbatim>\<open>data\<close> event, the call at the end of the second event hands over the
  transactions of the first chunk again.
\<close>

lemma load_two_chunks:
  assumes "\<forall>tx \<in> set (ts1 @ ts2). parse (serialize tx) = Inr tx \<and> indexOf (serialize tx) bufferSplit = None"
    and "ts1 \<noteq> []" and "length ts1 + length ts2 \<le> 1024"
  shows "load parse (Some ([concat (map (\<lambda>tx. serialize tx @ bufferSplit) ts1),
                             concat (map (\<lambda>tx. serialize tx @ bufferSplit) ts2)], None))
     = ([ts1, ts1 @ ts2], Resolved ())"
proof -
  let ?init = "\<lparr>batch = [], bufferInput = [], added = []\<rparr> :: 'a loading"
  let ?mid = "\<lparr>batch = ts1, bufferInput = [], added = [ts1]\<rparr> :: 'a loading"
  have none: "indexOf [] bufferSplit = None"
    by (simp add: bufferSplit_def)
  have "parse_records parse (?init\<lparr>bufferInput := concat (map (\<lambda>tx. serialize tx @ bufferSplit) ts1) @ []\<rparr>)
      = ((foldl push_batch ?init ts1)\<lparr>bufferInput := []\<rparr>, None)"
    using assms(1) by (intro parse_records_journal [OF none]) simp
  moreover have "foldl push_batch ?init ts1 = ?init\<lparr>batch := ts1\<rparr>"
    using push_batch_few [of ?init ts1] assms(3) by simp
  ultimately have first: "on_data parse ?init (concat (map (\<lambda>tx. serialize tx @ bufferSplit) ts1)) = (?mid, None)"
    using assms(2) by (simp add: on_data_def)
  have "parse_records parse (?mid\<lparr>bufferInput := concat (map (\<lambda>tx. serialize tx @ bufferSplit) ts2) @ []\<rparr>)
      = ((foldl push_batch ?mid ts2)\<lparr>bufferInput := []\<rparr>, None)"
    using assms(1) by (intro parse_records_journal [OF none]) simp
  moreover have "foldl push_batch ?mid ts2 = ?mid\<lparr>batch := ts1 @ ts2\<rparr>"
    using push_batch_few [of ?mid ts2] assms(3) by simp
  ultimately have second: "on_data parse ?mid (concat (map (\<lambda>tx. serialize tx @ bufferSplit) ts2))
      = (\<lparr>batch = ts1 @ ts2, bufferInput = [], added = [ts1, ts1 @ ts2]\<rparr>, None)"
    using assms(2) by (simp add: on_data_def)
  from first second show ?thesis
    by (simp add: load_def)
qed

text \<open>
  A transaction whose serialization contains CR LF is cut at that place; the parse of
  the first piece throws, and the promise of \<^verbatim>\<open>load\<close> is never settled.
\<close>

lemma load_delimiter_inside:
  "insert_all example_serialize [] [''a'' @ bufferSplit @ ''b'']
     = Inr (''[a'' @ bufferSplit @ ''b]'' @ bufferSplit)
   \<and> load example_parse (Some ([''[a'' @ bufferSplit @ ''b]'' @ bufferSplit], None)) = ([], Pending)"
  by (simp add: insert_tx_def example_serialize_def load_def on_data_def parse_records.simps
      bufferSplit_def example_parse_def push_batch_def)

text \<open>
  C7. The code breaks the claim. Two transactions are inserted into an empty journal.
  Read as one chunk, the journal gives them back once, in order. Read as two chunks (as
  the read stream does with every journal longer than its chunk size), the same journal
  hands the first transaction to \<^verbatim>\<open>add\<close> twice: once alone and once more in front of the
  second.
\<close>

theorem load_two_chunks_delivers_twice:
  "insert_all example_serialize [] [''ab'', ''cd''] = Inr (''[ab]'' @ bufferSplit @ ''[cd]'' @ bufferSplit)
   \<and> load example_parse (Some ([''[ab]'' @ bufferSplit @ ''[cd]'' @ bufferSplit], None))
       = ([[''ab'', ''cd'']], Resolved ())
   \<and> load example_parse (Some ([''[ab]'' @ bufferSplit, ''[cd]'' @ bufferSplit], None))
       = ([[''ab''], [''ab'', ''cd'']], Resolved ())"
  by (simp add: insert_tx_def example_serialize_def load_def on_data_def parse_records.simps
      bufferSplit_def example_parse_def push_batch_def)

section \<open>Properties of the worker\<close>

lemma revert_after_checkpoint:
  "sm_revert ((sm_checkpoint sm)\<lparr>current := s\<rparr>) = Inr sm"
  by (simp add: sm_revert_def sm_checkpoint_def)

lemma commit_after_checkpoint:
  "sm_commit ((sm_checkpoint sm)\<lparr>current := s\<rparr>) = Inr (sm\<lparr>current := s\<rparr>)"
  by (simp add: sm_commit_def sm_checkpoint_def)

lemma current_checkpoint: "current (sm_checkpoint sm) = current sm"
  by (simp add: sm_checkpoint_def)

text \<open>
  C10. Called with a number and a hash, \<^verbatim>\<open>getPendingBlock\<close> compares them with the
  candidate's parent. A pair that does not match (\<^verbatim>\<open>number + 1\<close> is not the candidate's
  number, or the hash is not its parent hash) gives the freshly made header on the
  requested parent with no transactions. A pair that matches gives the candidate's header
  with the transactions accumulated so far and the trie root computed over them. So, when
  the candidate holds transactions, the returned block carries them only for a matching
  pair.
\<close>

theorem getPendingBlock_parent:
  assumes "b = getPendingBlock miner now this (Some n) (Some h)"
  shows "(n + 1 \<noteq> number (header this) \<or> h \<noteq> parentHash (header this) \<longrightarrow>
            b = Block (makeHeader miner now h (n + 1)) []
            \<and> transactions b = []
            \<and> parentHash (block_header b) = h
            \<and> number (block_header b) = n + 1)
       \<and> (n + 1 = number (header this) \<and> h = parentHash (header this) \<longrightarrow>
            transactions b = txs this
            \<and> transactionsTrie (block_header b) = calculateTransactionTrie miner (txs this)
            \<and> number (block_header b) = number (header this)
            \<and> parentHash (block_header b) = parentHash (header this))
       \<and> (txs this \<noteq> [] \<longrightarrow>
            (transactions b = txs this \<longleftrightarrow> n + 1 = number (header this) \<and> h = parentHash (header this)))"
  using assms by (auto simp: getPendingBlock_def makeHeader_def)

lemmas example_defs =
  example_big_def example_small_def example_bad_def example_other_def example_runTx_def
  example_worker_def example_miner_def

lemmas worker_defs =
  commit_round_def peek_def pop_def shift_def sm_checkpoint_def sm_revert_def sm_commit_def

theorem getPendingBlock_parent_witness:
  "transactions (getPendingBlock example_miner 9000 (example_worker\<lparr>txs := [example_small]\<rparr>)
       (Some 7) (Some ''p7'')) = [example_small]
   \<and> transactionsTrie (block_header (getPendingBlock example_miner 9000
       (example_worker\<lparr>txs := [example_small]\<rparr>) (Some 7) (Some ''p7''))) = ''A''
   \<and> transactions (getPendingBlock example_miner 9000 (example_worker\<lparr>txs := [example_small]\<rparr>)
       (Some 6) (Some ''p7'')) = []
   \<and> number (block_header (getPendingBlock example_miner 9000
       (example_worker\<lparr>txs := [example_small]\<rparr>) (Some 6) (Some ''p7''))) = 7"
  using getPendingBlock_parent [OF refl, where miner = example_miner and now = 9000
      and this = "example_worker\<lparr>txs := [example_small]\<rparr>" and n = 7 and h = "''p7''"]
    getPendingBlock_parent [OF refl, where miner = example_miner and now = 9000
      and this = "example_worker\<lparr>txs := [example_small]\<rparr>" and n = 6 and h = "''p7''"]
  by (simp add: example_defs makeHeader_def)

text \<open>
  C6. When \<^verbatim>\<open>runTx\<close> throws on the peeked transaction, the round leaves the worker as
  it was before the checkpoint of that round: the same current state (so the same state
  root), the same stack of savepoints, the same transactions and the same gas used. What
  \<^verbatim>\<open>runTx\<close> had written before it threw is gone.
\<close>

theorem commit_round_runTx_throws:
  assumes "runTx (current (wvm this)) tx = Inl (err, dirty)"
  shows "fst (commit_round runTx this pendingMap tx) = this
       \<and> current (wvm (fst (commit_round runTx this pendingMap tx))) = current (wvm this)
       \<and> snd (commit_round runTx this pendingMap tx) = pop pendingMap"
  using assms
  by (simp add: commit_round_def Let_def current_checkpoint revert_after_checkpoint)

text \<open>
  C5, as the code has it. When the peeked transaction runs but would take the gas used
  over the gas limit of the candidate's header, the round reverts the checkpoint (the
  worker is as before: state, transactions, gas used) and calls \<^verbatim>\<open>pop\<close>, the call the
  round also makes when \<^verbatim>\<open>runTx\<close> throws. The entry of the sender leaves the map with the
  later transactions of that sender; the entries of the other senders stay, and the loop
  goes on with them.
\<close>

theorem commit_round_over_gas_limit:
  assumes "runTx (current (wvm this)) tx = Inr (g, s')"
    and "gasLimit (header this) < g + gasUsed this"
    and "pick pendingMap = Some ((tx, later), others)"
  shows "fst (commit_round runTx this pendingMap tx) = this
       \<and> snd (commit_round runTx this pendingMap tx) = pop pendingMap
       \<and> pop pendingMap = others
       \<and> commit runTx this pendingMap = commit runTx this others"
proof -
  have round: "commit_round runTx this pendingMap tx = (this, pop pendingMap)"
    using assms(1,2)
    by (simp add: commit_round_def Let_def current_checkpoint revert_after_checkpoint)
  have others: "pop pendingMap = others"
    using assms(3) by (simp add: pop_def)
  have "peek pendingMap = Some tx"
    using assms(3) by (simp add: peek_def)
  then have "commit runTx this pendingMap = commit runTx this (pop pendingMap)"
    using round by (subst commit.simps) simp
  with round others show ?thesis by simp
qed

theorem commit_round_runTx_throws_witness:
  "example_runTx (current (wvm example_worker)) example_bad = Inl (Error ''invalid'', - 1)
   \<and> fst (commit_round example_runTx example_worker [(example_bad, [example_small])] example_bad)
       = example_worker
   \<and> current (wvm (fst (commit_round example_runTx example_worker
         [(example_bad, [example_small])] example_bad))) = 0"
  using commit_round_runTx_throws [where runTx = example_runTx and this = example_worker
      and tx = example_bad and err = "Error ''invalid''" and dirty = "- 1"
      and pendingMap = "[(example_bad, [example_small])]"]
  by (simp add: example_defs)

theorem commit_round_over_gas_limit_witness:
  "fst (commit_round example_runTx example_worker
         [(example_other, []), (example_big, [example_small])] example_big) = example_worker
   \<and> snd (commit_round example_runTx example_worker
         [(example_other, []), (example_big, [example_small])] example_big) = [(example_other, [])]
   \<and> commit example_runTx example_worker [(example_other, []), (example_big, [example_small])]
       = commit example_runTx example_worker [(example_other, [])]"
proof -
  have runs: "example_runTx (current (wvm example_worker)) example_big = Inr (10, 10)"
    by (simp add: example_defs)
  have over: "gasLimit (header example_worker) < 10 + gasUsed example_worker"
    by (simp add: example_defs)
  have best: "pick [(example_other, []), (example_big, [example_small])]
      = Some ((example_big, [example_small]), [(example_other, [])])"
    by (simp add: example_defs)
  from commit_round_over_gas_limit [where runTx = example_runTx, OF runs over best] show ?thesis
    by simp
qed

text \<open>
  The claim as the specification words it fails. The sender holds a transaction that
  needs 10 gas and, after it, one that needs 1; the gas limit is 5. The second
  transaction fits when it is offered by itself, but after the first one has gone over
  the limit nothing is left to peek, and the round ends with no transaction included.
\<close>

theorem over_gas_limit_counterexample:
  "txs (fst (commit example_runTx example_worker [(example_small, [])])) = [example_small]
   \<and> peek (snd (commit_round example_runTx example_worker
         [(example_big, [example_small])] example_big)) = None
   \<and> txs (fst (commit example_runTx example_worker [(example_big, [example_small])])) = []"
  by (simp add: commit.simps worker_defs example_defs)

section \<open>Properties of addPendingTxs\<close>

lemma addPendingTxsLoop_round_cases:
  "addPendingTxsLoop_round node pending = replicate (length pending) False
   \<or> (\<exists>results readies. txPool_addTxs node (map wrap pending) = Inr (results, readies)
        \<and> addPendingTxsLoop_round node pending = results)"
  by (auto simp: addPendingTxsLoop_round_def split: sum.splits option.splits prod.splits)

text \<open>
  C9, as the code has it. Once the initialisation of the node has succeeded, the promise
  \<^verbatim>\<open>addPendingTxs\<close> returns is never rejected. When the loop takes the request, the promise
  is resolved: with as many \<^verbatim>\<open>false\<close> values as transactions were submitted if the pool's
  \<^verbatim>\<open>addTxs\<close>, an announcement or the worker's \<^verbatim>\<open>addTxs\<close> throws, and with the results of
  the pool if nothing throws.
\<close>

theorem addPendingTxs_never_rejects:
  assumes "initPromise node = None"
  shows "addPendingTxs node taken pending \<noteq> Rejected e
     \<and> (taken \<longrightarrow> addPendingTxs node taken pending = Resolved (addPendingTxsLoop_round node pending))
     \<and> (txPool_addTxs node (map wrap pending) = Inl err \<longrightarrow>
          addPendingTxsLoop_round node pending = replicate (length pending) False)
     \<and> (txPool_addTxs node (map wrap pending) = Inr (results, Some ready) \<and> ready \<noteq> []
          \<and> (announce_all (announceTx node) (peerpool_peers node)
                 (map (tx_hash node) (concat (map snd ready))) \<noteq> None
              \<or> worker_addTxs node ready \<noteq> None) \<longrightarrow>
          addPendingTxsLoop_round node pending = replicate (length pending) False)
     \<and> (txPool_addTxs node (map wrap pending) = Inr (results, readies)
          \<and> (\<forall>ready. readies = Some ready \<and> ready \<noteq> [] \<longrightarrow>
                announce_all (announceTx node) (peerpool_peers node)
                  (map (tx_hash node) (concat (map snd ready))) = None
                \<and> worker_addTxs node ready = None) \<longrightarrow>
          addPendingTxsLoop_round node pending = results)
     \<and> length (replicate (length pending) False) = length pending"
  using assms
  by (auto simp: addPendingTxs_def addPendingTxsLoop_round_def split: option.splits)

theorem addPendingTxs_never_rejects_witness:
  "addPendingTxs example_node True [Plain ''new'', Wrapped ''old''] = Resolved [True, False]
   \<and> addPendingTxs example_node True [Plain ''new'', Wrapped ''bad''] = Resolved [False, False]"
  using addPendingTxs_never_rejects [where node = example_node and taken = True
      and pending = "[Plain ''new'', Wrapped ''old'']" and results = "[True, False]"
      and readies = "Some [(''A'', [''new''])]"]
    addPendingTxs_never_rejects [where node = example_node and taken = True
      and pending = "[Plain ''new'', Wrapped ''bad'']" and err = "Error ''pool''"]
  by (simp add: example_node_def)

text \<open>
  The claim as the specification words it fails on a node whose initialisation has
  failed: \<^verbatim>\<open>addPendingTxs\<close> awaits \<^verbatim>\<open>initPromise\<close> first, so the promise it returns is
  rejected with the error of the initialisation.
\<close>

theorem addPendingTxs_counterexample:
  "addPendingTxs (example_node\<lparr>initPromise := Some (Error ''state root not equal'')\<rparr>) True
       [Plain ''new'']
     = Rejected (Error ''state root not equal'')"
  by (simp add: addPendingTxs_def example_node_def)

end
